theory Spec2Isabelle
  imports Complex_Main "HOL-Library.Word"
begin

section \<open>Galv backend: domain model and permission filters\<close>

text \<open>
  A shallow embedding of \<^verbatim>\<open>backend_django/galv/models/models.py\<close> and
  \<^verbatim>\<open>backend_django/galv/permissions.py\<close>. Django model instances are records, rows of
  a table are lists of records, Python exceptions are values of a sum type, and the
  wall clock and the random source are explicit arguments.
\<close>

subsection \<open>Access tiers\<close>

datatype UserLevel = ANONYMOUS | REGISTERED_USER | LAB_MEMBER | TEAM_MEMBER | TEAM_ADMIN

text \<open>
  Modelled from the spec: the enumeration module \<^verbatim>\<open>models/choices.py\<close> is not part of
  the given sources. The spec orders the tiers
  ANONYMOUS < REGISTERED_USER < LAB_MEMBER < TEAM_MEMBER < TEAM_ADMIN; the integers
  below realise that order. This is \<^verbatim>\<open>UserLevel.X.value\<close>.
\<close>

fun level_value :: "UserLevel \<Rightarrow> int" where
  "level_value ANONYMOUS = 0"
| "level_value REGISTERED_USER = 1"
| "level_value LAB_MEMBER = 2"
| "level_value TEAM_MEMBER = 3"
| "level_value TEAM_ADMIN = 4"

subsection \<open>Labs, teams, groups and users\<close>

text \<open>
  Django compares model instances by primary key, so a Lab is its primary key. A Team
  carries its key and the key of its (non-null) lab. A Group carries the three reverse
  one-to-one relations \<^verbatim>\<open>editable_lab\<close>, \<^verbatim>\<open>editable_team\<close>, \<^verbatim>\<open>readable_team\<close>;
  \<^verbatim>\<open>hasattr(g, 'editable_lab')\<close> is \<open>editable_lab g \<noteq> None\<close>.
\<close>

type_synonym lab = nat

record team =
  team_pk :: nat
  team_lab :: lab

record group =
  group_pk :: nat
  editable_lab :: "lab option"
  editable_team :: "team option"
  readable_team :: "team option"

record user =
  groups :: "group list"
  is_authenticated :: bool
  is_staff :: bool
  is_superuser :: bool

subsection \<open>ResourceModelPermissionsMixin\<close>

record resource =
  res_pk :: nat
  res_team :: "team option"
  delete_access_level :: int
  edit_access_level :: int
  read_access_level :: int

text \<open>
  \<^verbatim>\<open>ResourceModelPermissionsMixin.save\<close>: the two clamps, in the order of the source; the
  value returned is the instance as it is handed to \<^verbatim>\<open>super().save\<close>, that is, as stored.
  Subclasses add fields, so the function is defined on every extension of the record.
\<close>

definition ResourceModelPermissionsMixin_save :: "'a resource_scheme \<Rightarrow> 'a resource_scheme" where
  "ResourceModelPermissionsMixin_save self =
     (let self1 = (if read_access_level self > edit_access_level self
                   then self\<lparr>read_access_level := edit_access_level self\<rparr> else self);
          self2 = (if edit_access_level self1 > delete_access_level self1
                   then self1\<lparr>edit_access_level := delete_access_level self1\<rparr> else self1)
      in self2)"

subsection \<open>Membership derived from groups\<close>

text \<open>
  \<^verbatim>\<open>user_teams(user, editable)\<close>: the loop over \<^verbatim>\<open>user.groups.all()\<close>, appending to
  \<^verbatim>\<open>teams\<close>.
\<close>

fun user_teams_loop :: "bool \<Rightarrow> group list \<Rightarrow> team list \<Rightarrow> team list" where
  "user_teams_loop editable [] teams = teams"
| "user_teams_loop editable (g # gs) teams =
     (let teams1 = (case editable_team g of Some t \<Rightarrow> teams @ [t] | None \<Rightarrow> teams);
          teams2 = (if \<not> editable
                    then (case readable_team g of Some t \<Rightarrow> teams1 @ [t] | None \<Rightarrow> teams1)
                    else teams1)
      in user_teams_loop editable gs teams2)"

definition user_teams :: "user \<Rightarrow> bool \<Rightarrow> team list" where
  "user_teams u editable = user_teams_loop editable (groups u) []"

text \<open>
  \<^verbatim>\<open>user_labs(user, editable)\<close>: first the labs whose admin group the user is in, then
  (unless \<^verbatim>\<open>editable\<close>) the labs of the user's teams that are not yet listed.
\<close>

fun editable_labs_loop :: "group list \<Rightarrow> lab list \<Rightarrow> lab list" where
  "editable_labs_loop [] labs = labs"
| "editable_labs_loop (g # gs) labs =
     editable_labs_loop gs (case editable_lab g of Some l \<Rightarrow> labs @ [l] | None \<Rightarrow> labs)"

fun team_labs_loop :: "team list \<Rightarrow> lab list \<Rightarrow> lab list" where
  "team_labs_loop [] labs = labs"
| "team_labs_loop (t # ts) labs =
     team_labs_loop ts (if team_lab t \<notin> set labs then labs @ [team_lab t] else labs)"

definition user_labs :: "user \<Rightarrow> bool \<Rightarrow> lab list" where
  "user_labs u editable =
     (let labs = editable_labs_loop (groups u) []
      in if editable then labs else team_labs_loop (user_teams u False) labs)"

text \<open>Python's \<^verbatim>\<open>x in xs\<close> on model instances compares primary keys.\<close>

definition team_in :: "team \<Rightarrow> team list \<Rightarrow> bool" where
  "team_in t ts = (team_pk t \<in> set (map team_pk ts))"

definition group_in :: "group \<Rightarrow> group list \<Rightarrow> bool" where
  "group_in g gs = (group_pk g \<in> set (map group_pk gs))"

subsection \<open>Lab, Team and GroupProxy object permissions\<close>

definition Lab_has_object_read_permission :: "lab \<Rightarrow> user \<Rightarrow> bool" where
  "Lab_has_object_read_permission self u =
     (is_staff u \<or> is_superuser u \<or> self \<in> set (user_labs u False))"

definition Lab_has_object_write_permission :: "lab \<Rightarrow> user \<Rightarrow> bool" where
  "Lab_has_object_write_permission self u =
     (is_staff u \<or> is_superuser u \<or> self \<in> set (user_labs u True))"

definition Team_has_object_read_permission :: "team \<Rightarrow> user \<Rightarrow> bool" where
  "Team_has_object_read_permission self u =
     (team_lab self \<in> set (user_labs u True) \<or> team_in self (user_teams u False))"

definition Team_has_object_write_permission :: "team \<Rightarrow> user \<Rightarrow> bool" where
  "Team_has_object_write_permission self u =
     (team_lab self \<in> set (user_labs u True) \<or> team_in self (user_teams u True))"

datatype group_owner = OwnerLab lab | OwnerTeam team

text \<open>\<^verbatim>\<open>GroupProxy.get_owner\<close>: the first back-reference that exists, in the source's order.\<close>

definition get_owner :: "group \<Rightarrow> group_owner option" where
  "get_owner self =
     (case editable_lab self of Some l \<Rightarrow> Some (OwnerLab l)
      | None \<Rightarrow>
        (case editable_team self of Some t \<Rightarrow> Some (OwnerTeam t)
         | None \<Rightarrow>
           (case readable_team self of Some t \<Rightarrow> Some (OwnerTeam t)
            | None \<Rightarrow> None)))"

fun owner_has_object_write_permission :: "group_owner \<Rightarrow> user \<Rightarrow> bool" where
  "owner_has_object_write_permission (OwnerLab l) u = Lab_has_object_write_permission l u"
| "owner_has_object_write_permission (OwnerTeam t) u = Team_has_object_write_permission t u"

fun owner_has_object_read_permission :: "group_owner \<Rightarrow> user \<Rightarrow> bool" where
  "owner_has_object_read_permission (OwnerLab l) u = Lab_has_object_read_permission l u"
| "owner_has_object_read_permission (OwnerTeam t) u = Team_has_object_read_permission t u"

text \<open>The second argument is \<^verbatim>\<open>request.user\<close>, the only part of the request that is read.\<close>

definition GroupProxy_has_object_write_permission :: "group \<Rightarrow> user \<Rightarrow> bool" where
  "GroupProxy_has_object_write_permission self u =
     (case get_owner self of
        Some owner \<Rightarrow> owner_has_object_write_permission owner u
      | None \<Rightarrow> False)"

definition GroupProxy_has_object_read_permission :: "group \<Rightarrow> user \<Rightarrow> bool" where
  "GroupProxy_has_object_read_permission self u =
     (case get_owner self of
        Some owner \<Rightarrow> owner_has_object_read_permission owner u \<or> group_in self (groups u)
      | None \<Rightarrow> group_in self (groups u))"

subsection \<open>ResourceFilterBackend\<close>

text \<open>
  The lookups of the query, row by row. A row whose \<^verbatim>\<open>team\<close> is NULL satisfies neither
  \<^verbatim>\<open>team__in\<close> nor \<^verbatim>\<open>team__lab__in\<close>. Every stored row has a primary key, so
  \<^verbatim>\<open>Q(pk__isnull=v)\<close> holds of a row exactly when \<^verbatim>\<open>v\<close> is False.
\<close>

definition team__in :: "resource \<Rightarrow> team list \<Rightarrow> bool" where
  "team__in r ts = (case res_team r of None \<Rightarrow> False | Some t \<Rightarrow> team_in t ts)"

definition team__lab__in :: "resource \<Rightarrow> lab list \<Rightarrow> bool" where
  "team__lab__in r labs = (case res_team r of None \<Rightarrow> False | Some t \<Rightarrow> team_lab t \<in> set labs)"

definition pk__isnull :: "resource \<Rightarrow> bool \<Rightarrow> bool" where
  "pk__isnull r v = (v = False)"

definition filter_list_queryset :: "user \<Rightarrow> resource list \<Rightarrow> resource list" where
  "filter_list_queryset u queryset =
     (let labs = user_labs u False;
          user_approved = (length labs > 0)
      in filter (\<lambda>r.
           team__in r (user_teams u False)
           \<or> (read_access_level r = level_value LAB_MEMBER \<and> team__lab__in r labs)
           \<or> (read_access_level r = level_value REGISTERED_USER \<and> pk__isnull r (\<not> user_approved))
           \<or> read_access_level r = level_value ANONYMOUS) queryset)"

text \<open>
  The words of the specification, stated on the group memberships themselves and
  independent of the loops above: the caller is on a team when one of the caller's
  groups is that team's admin or member group; belongs to a lab when one of the groups
  is the lab's admin group or a group of one of the lab's teams; belongs to some lab
  when one of the groups has any of the three back-references.
\<close>

definition member_of_team :: "user \<Rightarrow> team \<Rightarrow> bool" where
  "member_of_team u t =
     (\<exists>g \<in> set (groups u).
        map_option team_pk (editable_team g) = Some (team_pk t)
        \<or> map_option team_pk (readable_team g) = Some (team_pk t))"

definition member_of_lab :: "user \<Rightarrow> lab \<Rightarrow> bool" where
  "member_of_lab u l =
     (\<exists>g \<in> set (groups u).
        editable_lab g = Some l
        \<or> map_option team_lab (editable_team g) = Some l
        \<or> map_option team_lab (readable_team g) = Some l)"

definition member_of_some_lab :: "user \<Rightarrow> bool" where
  "member_of_some_lab u =
     (\<exists>g \<in> set (groups u).
        editable_lab g \<noteq> None \<or> editable_team g \<noteq> None \<or> readable_team g \<noteq> None)"

subsection \<open>Time-series tables\<close>

datatype timeseries_handler = TimeseriesDataFloat | TimeseriesDataInt | TimeseriesDataStr

datatype timeseries_error = UnsupportedTimeseriesDataTypeError

definition get_timeseries_handler_by_type :: "string \<Rightarrow> timeseries_error + timeseries_handler" where
  "get_timeseries_handler_by_type data_type =
     (if data_type = ''float'' then Inr TimeseriesDataFloat
      else if data_type = ''str'' then Inr TimeseriesDataStr
      else if data_type = ''int'' then Inr TimeseriesDataInt
      else Inl UnsupportedTimeseriesDataTypeError)"

subsection \<open>Schema validation\<close>

text \<open>
  The members of \<^verbatim>\<open>ValidationStatus\<close> that the source names (the enumeration itself is
  in \<^verbatim>\<open>models/choices.py\<close>, which is not part of the given sources).
\<close>

datatype ValidationStatus = UNCHECKED | VALID | INVALID | ERROR | SKIPPED

text \<open>JSON values, as far as \<^verbatim>\<open>SchemaValidation.detail\<close> holds them.\<close>

datatype json = JNull | JStr string | JList "json list" | JDict "(string \<times> json) list"

text \<open>A \<^verbatim>\<open>jsonschema.exceptions.ValidationError\<close>, with the attributes the source reads.\<close>

datatype validation_error =
  ValidationError (err_message: string) (err_context: "validation_error list") (err_cause: json)
    (err_json_path: string) (err_validator: string) (err_validator_value: json)

text \<open>
  A model class, and \<^verbatim>\<open>str\<close> of the value \<^verbatim>\<open>content_type.model_class()\<close> returns: the
  class, or None when the content type is stale.
\<close>

record py_class =
  class_module :: string
  class_name :: string

definition str_of_class :: "py_class option \<Rightarrow> string" where
  "str_of_class c =
     (case c of None \<Rightarrow> ''None''
      | Some k \<Rightarrow> ''<class '' @ [CHR 0x27] @ class_module k @ ''.'' @ class_name k @ [CHR 0x27] @ ''>'')"

text \<open>
  A \<^verbatim>\<open>SchemaValidation\<close> row: \<open>sv_schema\<close> is the key of the referenced
  \<^verbatim>\<open>ValidationSchema\<close>; a null \<^verbatim>\<open>detail\<close> is \<open>None\<close>.
\<close>

record schema_validation =
  sv_schema :: nat
  content_type_model_class :: "py_class option"
  object_id :: string
  status :: ValidationStatus
  detail :: "json option"

text \<open>
  What \<^verbatim>\<open>getattr(galv_serializers, s)\<close> can be for a name of \<^verbatim>\<open>dir(galv_serializers)\<close>:
  not a class (\<^verbatim>\<open>issubclass\<close> raises, the bare \<^verbatim>\<open>except\<close> passes), a class that is no
  \<^verbatim>\<open>Serializer\<close>, or a \<^verbatim>\<open>Serializer\<close> subclass. For the last, \<open>None\<close> says that
  \<^verbatim>\<open>Meta\<close> or \<^verbatim>\<open>Meta.model\<close> is missing and \<open>Some m\<close> that \<^verbatim>\<open>Meta.model\<close> is \<open>m\<close>.
  The serializers module is not part of the given sources: its listing is a parameter.
\<close>

datatype module_attr = NotAClass | PlainClass | SerializerClass "py_class option option"

text \<open>
  The steps of \<^verbatim>\<open>validate\<close> after the serializer is found (serialising the target and
  \<^verbatim>\<open>jsonschema.validate\<close>) run library code; their outcome is a parameter: the data
  conforms, \<^verbatim>\<open>ValidationError\<close> is raised, \<^verbatim>\<open>_WrappedReferencingError\<close> is raised, or
  any other exception is raised (with its text).
\<close>

datatype check_outcome = Conforms | Violates validation_error | Unresolvable | Fails string

datatype py_exception = PyException string

record validation_env =
  serializers_dir :: "(string \<times> module_attr) list"
  run_checks :: "string \<Rightarrow> schema_validation \<Rightarrow> check_outcome"

text \<open>
  The scan of \<^verbatim>\<open>validate\<close>: the first matching serializer, by name. The two statements
  before the scan (importing the serializers module, \<^verbatim>\<open>content_type.model_class()\<close>) are
  taken to succeed.
\<close>

fun find_serializer :: "(string \<times> module_attr) list \<Rightarrow> py_class option \<Rightarrow> string option" where
  "find_serializer [] model_class = None"
| "find_serializer ((s, x) # rest) model_class =
     (case x of
        SerializerClass (Some m) \<Rightarrow>
          if m = model_class then Some s else find_serializer rest model_class
      | _ \<Rightarrow> find_serializer rest model_class)"

fun unwrap_validationerror :: "validation_error \<Rightarrow> json" where
  "unwrap_validationerror (ValidationError message context cause json_path validator validator_value) =
     JDict [(''message'', JStr message),
            (''context'', JList (map unwrap_validationerror context)),
            (''cause'', cause),
            (''json_path'', JStr json_path),
            (''validator'', JStr validator),
            (''validator_value'', validator_value)]"

definition validate :: "validation_env \<Rightarrow> bool \<Rightarrow> schema_validation \<Rightarrow> py_exception + schema_validation" where
  "validate env halt_on_error self =
     (let model_class = content_type_model_class self in
      case find_serializer (serializers_dir env) model_class of
        None \<Rightarrow>
          Inr (self\<lparr>status := ERROR,
                    detail := Some (JStr (''Could not find serializer for '' @ str_of_class model_class))\<rparr>)
      | Some serializer \<Rightarrow>
          (case run_checks env serializer self of
             Conforms \<Rightarrow> Inr (self\<lparr>status := VALID, detail := None\<rparr>)
           | Violates e \<Rightarrow> Inr (self\<lparr>status := INVALID, detail := Some (unwrap_validationerror e)\<rparr>)
           | Unresolvable \<Rightarrow> Inr (self\<lparr>status := SKIPPED\<rparr>)
           | Fails e \<Rightarrow>
               if halt_on_error then Inl (PyException e)
               else Inr (self\<lparr>status := ERROR,
                         detail := Some (JDict [(''message'', JStr (''Error running validation: '' @ e))])\<rparr>)))"

text \<open>
  The specification's "a serializer class whose declared model matches the target's
  type", stated on the listing and not on the scan.
\<close>

definition has_matching_serializer :: "(string \<times> module_attr) list \<Rightarrow> py_class option \<Rightarrow> bool" where
  "has_matching_serializer attrs model_class =
     (\<exists>(s, x) \<in> set attrs. x = SerializerClass (Some model_class))"

text \<open>
  \<^verbatim>\<open>ValidationSchema\<close> is a resource with a name and a JSON schema. The database holds the
  two tables that \<^verbatim>\<open>ValidationSchema.save\<close> touches. \<^verbatim>\<open>super().save\<close> runs the mixin's
  clamps and writes the row (insert or update by primary key);
  \<^verbatim>\<open>filter(schema=self).update(status=..., detail=...)\<close> rewrites the two columns of every
  row that references the schema.
\<close>

record validation_schema = resource +
  vs_name :: string
  vs_schema :: json

record database =
  validation_schema_table :: "validation_schema list"
  schema_validation_table :: "schema_validation list"

fun upsert :: "validation_schema \<Rightarrow> validation_schema list \<Rightarrow> validation_schema list" where
  "upsert row [] = [row]"
| "upsert row (r # rs) = (if res_pk r = res_pk row then row # rs else r # upsert row rs)"

definition update_status_detail ::
  "nat \<Rightarrow> ValidationStatus \<Rightarrow> json option \<Rightarrow> schema_validation list \<Rightarrow> schema_validation list" where
  "update_status_detail schema_pk st d rows =
     map (\<lambda>v. if sv_schema v = schema_pk then v\<lparr>status := st, detail := d\<rparr> else v) rows"

definition ValidationSchema_save :: "validation_schema \<Rightarrow> database \<Rightarrow> validation_schema \<times> database" where
  "ValidationSchema_save self db =
     (let self1 = ResourceModelPermissionsMixin_save self;
          db1 = db\<lparr>validation_schema_table := upsert self1 (validation_schema_table db)\<rparr>;
          db2 = db1\<lparr>schema_validation_table :=
                  update_status_detail (res_pk self1) UNCHECKED None (schema_validation_table db1)\<rparr>
      in (self1, db2))"

subsection \<open>Double-precision arithmetic\<close>

text \<open>
  A Python \<^verbatim>\<open>float\<close> is an IEEE 754 double: a float product or quotient is the exact
  result rounded to 53 significant bits, to nearest, ties to even. The values are kept
  as rational numbers. The results that occur here are far from overflow and from the
  subnormal range, which are not modelled.
\<close>

text \<open>Python's \<^verbatim>\<open>int.bit_length\<close>.\<close>

fun bit_length :: "nat \<Rightarrow> nat" where
  "bit_length n = (if n = 0 then 0 else Suc (bit_length (n div 2)))"

declare bit_length.simps [simp del]

text \<open>
  For \<open>a, d > 0\<close>, \<open>floor_log2 a d\<close> is the exponent \<open>e\<close> with
  \<open>2^e \<le> a / d < 2^(e + 1)\<close>: the difference of the bit lengths, or one less.
\<close>

definition floor_log2 :: "nat \<Rightarrow> nat \<Rightarrow> int" where
  "floor_log2 a d =
     (let e0 = int (bit_length a) - int (bit_length d)
      in if (of_nat a :: rat) < of_nat d * 2 powi e0 then e0 - 1 else e0)"

text \<open>The nearest integer, a tie going to the even one.\<close>

definition round_half_even :: "rat \<Rightarrow> int" where
  "round_half_even x =
     (let f = \<lfloor>x\<rfloor>; r = x - of_int f
      in if r > 1 / 2 \<or> (r = 1 / 2 \<and> odd f) then f + 1 else f)"

text \<open>
  \<open>double_quotient a d\<close> is the double nearest to \<open>a / d\<close> (for \<open>d > 0\<close>): the
  quotient is scaled by a power of two so that it lies between \<open>2^52\<close> and \<open>2^53\<close>,
  rounded to an integer significand, and scaled back.
\<close>

definition double_quotient :: "nat \<Rightarrow> nat \<Rightarrow> rat" where
  "double_quotient a d =
     (if a = 0 then 0
      else (let s = 52 - floor_log2 a d
            in of_int (round_half_even (of_nat a / of_nat d * 2 powi s)) * 2 powi (- s)))"

subsection \<open>Harvester API keys\<close>

text \<open>
  Python's \<^verbatim>\<open>xs[i]\<close>: a negative index counts from the end, an index out of range
  raises IndexError (\<open>None\<close>).
\<close>

definition py_getitem :: "'a list \<Rightarrow> int \<Rightarrow> 'a option" where
  "py_getitem xs i =
     (if 0 \<le> i \<and> i < int (length xs) then Some (xs ! nat i)
      else if i < 0 \<and> - int (length xs) \<le> i then Some (xs ! nat (int (length xs) + i))
      else None)"

text \<open>
  \<^verbatim>\<open>random.choices(population, k=k)\<close> of the standard library is
  \<^verbatim>\<open>[population[floor(random() * n)] for i in repeat(None, k)]\<close> with
  \<^verbatim>\<open>n = len(population) + 0.0\<close>. \<^verbatim>\<open>random()\<close> returns the double \<open>m / 2^53\<close> for a
  53-bit integer \<open>m\<close>, so the random source is the sequence of those integers,
  \<open>rnd i\<close> for the \<open>i\<close>-th call. \<^verbatim>\<open>random() * n\<close> is a float product: the double
  nearest to \<open>m * n / 2^53\<close>. The index is its floor.
\<close>

definition random_index :: "53 word \<Rightarrow> nat \<Rightarrow> int" where
  "random_index w n = \<lfloor>double_quotient (unat w * n) (2 ^ 53)\<rfloor>"

definition random_choices :: "(nat \<Rightarrow> 53 word) \<Rightarrow> 'a list \<Rightarrow> nat \<Rightarrow> 'a list option" where
  "random_choices rnd population k =
     those (map (\<lambda>i. py_getitem population (random_index (rnd i) (length population))) [0..<k])"

text \<open>
  The variable \<^verbatim>\<open>text\<close> of \<^verbatim>\<open>Harvester.save\<close>. A Python string counts code points; the
  pound sign U+00A3 is the one character \<open>CHR 0xA3\<close>.
\<close>

definition api_key_text :: string where
  "api_key_text =
     ''abcdefghijklmnopqrstuvwxyz'' @
     ''ABCDEFGHIJKLMNOPQRSTUVWXYZ'' @
     ''0123456789'' @
     [CHR ''!'', CHR 0xA3, CHR ''$'', CHR ''%'', CHR ''^'', CHR ''&'', CHR ''*'', CHR ''-'', CHR ''='', CHR ''+'']"

record harvester =
  harvester_name :: string
  api_key :: "string option"
  sleep_time :: int
  active :: bool
  harvester_lab :: lab

text \<open>
  \<^verbatim>\<open>Harvester.save\<close>; the value returned is the instance handed to \<^verbatim>\<open>super().save\<close>.
\<close>

datatype index_error = IndexError

definition Harvester_save :: "(nat \<Rightarrow> 53 word) \<Rightarrow> harvester \<Rightarrow> index_error + harvester" where
  "Harvester_save rnd self =
     (case api_key self of
        None \<Rightarrow>
          (case random_choices rnd api_key_text 60 of
             None \<Rightarrow> Inl IndexError
           | Some chosen \<Rightarrow> Inr (self\<lparr>api_key := Some (''galv_hrv_'' @ chosen)\<rparr>))
      | Some key \<Rightarrow> Inr self)"

subsection \<open>UserActivation\<close>

text \<open>
  The fields of a \<^verbatim>\<open>UserActivation\<close> that its methods read and write. A datetime is the
  number of microseconds since the epoch (the resolution of Python's \<^verbatim>\<open>datetime\<close>).
\<close>

record user_activation =
  token :: "string option"
  token_update_date :: "int option"
  redemption_date :: "int option"

text \<open>
  What the methods see and change: the instance in memory (\<open>act\<close>) and
  \<^verbatim>\<open>self.user.is_active\<close>, the stored row of the instance and the stored flag of the user,
  and how many times the clock and the random source have been consulted so far.
\<close>

record activation_state =
  act :: user_activation
  user_is_active :: bool
  act_row :: "user_activation option"
  user_row_is_active :: bool
  clock_reads :: nat
  tokens_drawn :: nat

text \<open>
  The surroundings of a call: \<open>now_at env i\<close> is what the \<open>i\<close>-th call of
  \<^verbatim>\<open>timezone.now()\<close> returns, \<open>token_at env i\<close> what the \<open>i\<close>-th call of
  \<^verbatim>\<open>get_random_string(length=8, allowed_chars='1234567890')\<close> returns, and the setting
  \<^verbatim>\<open>settings.USER_ACTIVATION_TOKEN_EXPIRY_S\<close> (the settings module is not part of the given
  sources).
\<close>

record activation_env =
  now_at :: "nat \<Rightarrow> int"
  token_at :: "nat \<Rightarrow> string"
  USER_ACTIVATION_TOKEN_EXPIRY_S :: int

definition timezone_now :: "activation_env \<Rightarrow> activation_state \<Rightarrow> int \<times> activation_state" where
  "timezone_now env w = (now_at env (clock_reads w), w\<lparr>clock_reads := Suc (clock_reads w)\<rparr>)"

text \<open>
  \<^verbatim>\<open>timedelta.total_seconds()\<close> of a difference of \<open>us\<close> microseconds: the float
  quotient \<open>us / 10^6\<close>, that is, the double nearest to it.
\<close>

definition total_seconds :: "int \<Rightarrow> rat" where
  "total_seconds us =
     (if us < 0 then - double_quotient (nat (- us)) 1000000
      else double_quotient (nat us) 1000000)"

text \<open>
  \<^verbatim>\<open>get_is_expired\<close>: the clock is read only when \<^verbatim>\<open>token_update_date\<close> is set. The
  difference of the two datetimes is exact; its \<^verbatim>\<open>total_seconds()\<close> is a float, which
  Python compares exactly with the integer setting.
\<close>

definition get_is_expired :: "activation_env \<Rightarrow> activation_state \<Rightarrow> bool \<times> activation_state" where
  "get_is_expired env w =
     (case token_update_date (act w) of
        None \<Rightarrow> (True, w)
      | Some d \<Rightarrow>
          (case timezone_now env w of
             (n, w1) \<Rightarrow>
               (total_seconds (n - d) > of_int (USER_ACTIVATION_TOKEN_EXPIRY_S env), w1)))"

text \<open>
  Modelled from the spec: \<^verbatim>\<open>TimestampedModel\<close> (\<^verbatim>\<open>models/utils.py\<close>) is missing from the
  given sources; the spec calls it a "created/modified timestamped record base". Its
  \<^verbatim>\<open>save\<close>, reached through \<^verbatim>\<open>super().save(...)\<close>, writes the instance to its row.
\<close>

definition super_save :: "activation_state \<Rightarrow> activation_state" where
  "super_save w = w\<lparr>act_row := Some (act w)\<rparr>"

text \<open>The two assignments of \<^verbatim>\<open>generate_token\<close>, before it calls \<^verbatim>\<open>self.save()\<close>.\<close>

definition assign_fresh_token :: "activation_env \<Rightarrow> activation_state \<Rightarrow> activation_state" where
  "assign_fresh_token env w =
     (let w1 = w\<lparr>act := (act w)\<lparr>token := Some (token_at env (tokens_drawn w))\<rparr>,
                  tokens_drawn := Suc (tokens_drawn w)\<rparr>
      in case timezone_now env w1 of
           (n, w2) \<Rightarrow> w2\<lparr>act := (act w2)\<lparr>token_update_date := Some n\<rparr>\<rparr>)"

text \<open>
  \<^verbatim>\<open>UserActivation.save\<close> and \<^verbatim>\<open>generate_token\<close> call each other. Nothing in the source
  bounds the recursion, so \<open>save\<close> is a partial function: \<open>None\<close> says that the
  call does not return. The recursive calls are the calls of \<^verbatim>\<open>generate_token\<close>
  (\<open>UserActivation_save_unfold\<close> below states \<open>save\<close> with \<open>generate_token\<close>).
  \<^verbatim>\<open>self.token is None or self.get_is_expired()\<close> evaluates its right operand only when
  the left one is false.
\<close>

partial_function (option) UserActivation_save ::
  "activation_env \<Rightarrow> activation_state \<Rightarrow> activation_state option" where
  "UserActivation_save env w =
     (let w1 = super_save w in
      if \<not> user_is_active w1 then
        (if token (act w1) = None
         then UserActivation_save env (assign_fresh_token env w1)
         else (case get_is_expired env w1 of
                 (expired, w2) \<Rightarrow>
                   if expired then UserActivation_save env (assign_fresh_token env w2)
                   else Some w2))
      else Some w1)"

definition generate_token :: "activation_env \<Rightarrow> activation_state \<Rightarrow> activation_state option" where
  "generate_token env w = UserActivation_save env (assign_fresh_token env w)"

text \<open>
  \<^verbatim>\<open>activate_user\<close>: the error raised, if any, and the state left behind; \<open>None\<close> when
  a nested \<^verbatim>\<open>save\<close> does not return.
\<close>

datatype activation_error = ValueError string | RuntimeError string

definition activate_user ::
  "activation_env \<Rightarrow> activation_state \<Rightarrow> ((activation_error + unit) \<times> activation_state) option" where
  "activate_user env w =
     (case get_is_expired env w of
        (expired, w1) \<Rightarrow>
          if expired then
            (case generate_token env w1 of
               None \<Rightarrow> None
             | Some w2 \<Rightarrow>
                 Some (Inl (ValueError
                   ''Activation token expired. A new token has been generated and emailed to you.''),
                   w2))
          else if user_is_active w1 then Some (Inl (RuntimeError ''User already active''), w1)
          else
            (let w2 = w1\<lparr>user_is_active := True\<rparr>;
                 w3 = w2\<lparr>user_row_is_active := user_is_active w2\<rparr>
             in case timezone_now env w3 of
                  (n, w4) \<Rightarrow>
                    (case UserActivation_save env (w4\<lparr>act := (act w4)\<lparr>redemption_date := Some n\<rparr>\<rparr>) of
                       None \<Rightarrow> None
                     | Some w5 \<Rightarrow> Some (Inr (), w5))))"

text \<open>
  \<^verbatim>\<open>generate_token\<close> stamps the new token with a clock reading, and the save it calls
  checks the token at the next reading. A token stamped with reading number \<open>k\<close>
  survives when \<^verbatim>\<open>get_is_expired\<close> is false of it at reading number \<open>k + 1\<close>.
\<close>

definition token_survives :: "activation_env \<Rightarrow> nat \<Rightarrow> bool" where
  "token_survives env k =
     (\<not> total_seconds (now_at env (Suc k) - now_at env k)
          > of_int (USER_ACTIVATION_TOKEN_EXPIRY_S env))"

text \<open>
  The state \<^verbatim>\<open>generate_token\<close> leaves when its nested \<^verbatim>\<open>save\<close> does not generate again:
  the row is written and, for an inactive user, the clock has been read once more.
\<close>

definition after_generate_token :: "activation_env \<Rightarrow> activation_state \<Rightarrow> activation_state" where
  "after_generate_token env w =
     (let w1 = super_save (assign_fresh_token env w)
      in if user_is_active w1 then w1 else w1\<lparr>clock_reads := Suc (clock_reads w1)\<rparr>)"

text \<open>The condition under which \<^verbatim>\<open>save\<close> calls \<^verbatim>\<open>generate_token\<close>.\<close>

definition save_regenerates :: "activation_env \<Rightarrow> activation_state \<Rightarrow> bool" where
  "save_regenerates env w =
     (\<not> user_is_active w \<and> (token (act w) = None \<or> fst (get_is_expired env (super_save w))))"

text \<open>
  The number of the clock reading with which \<^verbatim>\<open>generate_token\<close> stamps the token when
  \<^verbatim>\<open>save\<close> calls it: \<^verbatim>\<open>save\<close> has read the clock before only if it had to look at
  \<^verbatim>\<open>token_update_date\<close>.
\<close>

definition regeneration_reading :: "activation_env \<Rightarrow> activation_state \<Rightarrow> nat" where
  "regeneration_reading env w =
     (if token (act w) = None then clock_reads w
      else clock_reads (snd (get_is_expired env (super_save w))))"

text \<open>
  Three surroundings and three records for the examples below. In \<open>slow_env\<close>
  tokens live for one second and every clock reading is two seconds after the previous
  one. In \<open>waiting_env\<close> tokens live for 900 seconds and readings are a millisecond
  apart, but for twenty minutes that pass between the second reading and the third: a
  user who registers, waits, and comes back. In \<open>hiccup_env\<close> tokens live for one
  second, the first reading is five seconds after the stamp of the registered token, and
  readings are a millisecond apart but for two seconds that pass between the second
  reading and the third. \<open>registered k is_active\<close> is a record with a token stamped
  at time 0, seen when the clock has been read \<open>k\<close> times.
\<close>

definition slow_env :: activation_env where
  "slow_env = \<lparr>now_at = (\<lambda>i. 2000000 * int i), token_at = (\<lambda>i. ''12345678''),
               USER_ACTIVATION_TOKEN_EXPIRY_S = 1\<rparr>"

definition waiting_env :: activation_env where
  "waiting_env =
     \<lparr>now_at = (\<lambda>i. if i < 2 then 1000 * int i else 1200000000 + 1000 * int i),
      token_at = (\<lambda>i. if i = 0 then ''48151623'' else ''16234815''),
      USER_ACTIVATION_TOKEN_EXPIRY_S = 900\<rparr>"

definition hiccup_env :: activation_env where
  "hiccup_env =
     \<lparr>now_at = (\<lambda>i. if i < 2 then 5000000 + 1000 * int i else 7000000 + 1000 * int i),
      token_at = (\<lambda>i. if i = 1 then ''27182818'' else ''31415926''),
      USER_ACTIVATION_TOKEN_EXPIRY_S = 1\<rparr>"

definition new_activation :: activation_state where
  "new_activation =
     \<lparr>act = \<lparr>token = None, token_update_date = None, redemption_date = None\<rparr>,
      user_is_active = False, act_row = None, user_row_is_active = False,
      clock_reads = 0, tokens_drawn = 0\<rparr>"

definition stale_activation :: activation_state where
  "stale_activation =
     \<lparr>act = \<lparr>token = Some ''00000000'', token_update_date = Some (- 1000000000),
             redemption_date = None\<rparr>,
      user_is_active = False, act_row = None, user_row_is_active = False,
      clock_reads = 0, tokens_drawn = 0\<rparr>"

definition registered :: "nat \<Rightarrow> bool \<Rightarrow> activation_state" where
  "registered k is_active =
     \<lparr>act = \<lparr>token = Some ''48151623'', token_update_date = Some 0,
             redemption_date = None\<rparr>,
      user_is_active = is_active,
      act_row = Some \<lparr>token = Some ''48151623'', token_update_date = Some 0,
                       redemption_date = None\<rparr>,
      user_row_is_active = is_active,
      clock_reads = k, tokens_drawn = 1\<rparr>"

subsection \<open>MonitoredPath.paths_match\<close>

text \<open>
  \<^verbatim>\<open>paths_match\<close> calls three functions of Python's standard library:
  \<^verbatim>\<open>str.startswith\<close>, \<^verbatim>\<open>os.path.relpath\<close> and \<^verbatim>\<open>re.search\<close>. The last two can raise;
  the errors are values.
\<close>

datatype path_error = PathValueError | ReError | ReNotModelled

definition startswith :: "string \<Rightarrow> string \<Rightarrow> bool" where
  "startswith s p = (take (length p) s = p)"

definition endswith :: "string \<Rightarrow> string \<Rightarrow> bool" where
  "endswith s p = (length p \<le> length s \<and> drop (length s - length p) s = p)"

text \<open>
  \<^verbatim>\<open>os.path.relpath\<close> on a POSIX system (\<^verbatim>\<open>posixpath.py\<close>), with the working directory
  that \<^verbatim>\<open>abspath\<close> reads given as \<open>cwd\<close>: \<^verbatim>\<open>str.split\<close>, \<^verbatim>\<open>str.join\<close>, the loop of
  \<^verbatim>\<open>normpath\<close>, \<^verbatim>\<open>normpath\<close>, the loop of \<^verbatim>\<open>join\<close>, \<^verbatim>\<open>abspath\<close>,
  \<^verbatim>\<open>commonprefix\<close> of two lists and \<^verbatim>\<open>relpath\<close> itself.
\<close>

fun split_on :: "char \<Rightarrow> string \<Rightarrow> string list" where
  "split_on sep [] = [[]]"
| "split_on sep (c # cs) =
     (if c = sep then [] # split_on sep cs
      else (case split_on sep cs of [] \<Rightarrow> [[c]] | x # xs \<Rightarrow> (c # x) # xs))"

fun sep_join :: "string \<Rightarrow> string list \<Rightarrow> string" where
  "sep_join sep [] = []"
| "sep_join sep [x] = x"
| "sep_join sep (x # y # ys) = x @ sep @ sep_join sep (y # ys)"

fun norm_comps :: "nat \<Rightarrow> string list \<Rightarrow> string list \<Rightarrow> string list" where
  "norm_comps initial_slashes [] new_comps = new_comps"
| "norm_comps initial_slashes (part # comps) new_comps =
     (if part = [] \<or> part = ''.'' then norm_comps initial_slashes comps new_comps
      else if part \<noteq> ''..'' \<or> (initial_slashes = 0 \<and> new_comps = [])
                \<or> (new_comps \<noteq> [] \<and> last new_comps = ''..'')
           then norm_comps initial_slashes comps (new_comps @ [part])
      else if new_comps \<noteq> [] then norm_comps initial_slashes comps (butlast new_comps)
      else norm_comps initial_slashes comps new_comps)"

definition normpath :: "string \<Rightarrow> string" where
  "normpath path =
     (if path = [] then ''.''
      else
        (let initial_slashes =
               (if startswith path ''/''
                then (if startswith path ''//'' \<and> \<not> startswith path ''///'' then 2 else 1)
                else 0);
             comps = norm_comps initial_slashes (split_on CHR ''/'' path) [];
             joined = replicate initial_slashes CHR ''/'' @ sep_join ''/'' comps
         in if joined = [] then ''.'' else joined))"

fun join_loop :: "string \<Rightarrow> string list \<Rightarrow> string" where
  "join_loop path [] = path"
| "join_loop path (b # bs) =
     join_loop (if startswith b ''/'' then b
                else if path = [] \<or> endswith path ''/'' then path @ b
                else path @ ''/'' @ b) bs"

definition abspath :: "string \<Rightarrow> string \<Rightarrow> string" where
  "abspath cwd path =
     normpath (if \<not> startswith path ''/'' then join_loop cwd [path] else path)"

fun commonprefix :: "string list \<Rightarrow> string list \<Rightarrow> string list" where
  "commonprefix (x # xs) (y # ys) = (if x = y then x # commonprefix xs ys else [])"
| "commonprefix xs ys = []"

definition posix_relpath :: "string \<Rightarrow> string \<Rightarrow> string \<Rightarrow> path_error + string" where
  "posix_relpath cwd path start =
     (if path = [] then Inl PathValueError
      else
        (let start_list = filter (\<lambda>x. x \<noteq> []) (split_on CHR ''/'' (abspath cwd start));
             path_list = filter (\<lambda>x. x \<noteq> []) (split_on CHR ''/'' (abspath cwd path));
             i = length (commonprefix start_list path_list);
             rel_list = replicate (length start_list - i) ''..'' @ drop i path_list
         in case rel_list of
              [] \<Rightarrow> Inr ''.''
            | a # p \<Rightarrow> Inr (join_loop a p)))"

text \<open>
  \<^verbatim>\<open>re.search\<close> for a fragment of the pattern language: literal characters, \<^verbatim>\<open>.\<close>
  (any character but a newline), an escaped non-alphanumeric character, \<^verbatim>\<open>*\<close> after
  one of these, \<^verbatim>\<open>^\<close> (start of the string) and \<^verbatim>\<open>$\<close> (end of the string, or before
  a final newline). The result says whether some position of the string matches; a
  pattern outside the fragment is answered with \<open>ReNotModelled\<close>.
\<close>

datatype re_atom = AnyButNewline | Literal char

datatype re_item = Atom re_atom | Star re_atom | Bol | Eol

fun atom_matches :: "re_atom \<Rightarrow> char \<Rightarrow> bool" where
  "atom_matches AnyButNewline c = (c \<noteq> CHR 0x0A)"
| "atom_matches (Literal l) c = (c = l)"

definition re_special :: "char \<Rightarrow> bool" where
  "re_special c = (c \<in> set ''*+?()[]{}|'')"

definition re_alnum :: "char \<Rightarrow> bool" where
  "re_alnum c =
     (c \<in> set ''abcdefghijklmnopqrstuvwxyzABCDEFGHIJKLMNOPQRSTUVWXYZ0123456789'')"

definition re_repeat :: "re_atom \<Rightarrow> string \<Rightarrow> re_item \<times> string" where
  "re_repeat a cs =
     (case cs of
        c # rest \<Rightarrow> if c = CHR ''*'' then (Star a, rest) else (Atom a, cs)
      | [] \<Rightarrow> (Atom a, []))"

function re_parse :: "string \<Rightarrow> re_item list option" where
  "re_parse [] = Some []"
| "re_parse (c # cs) =
     (if c = CHR 0x5C then
        (case cs of
           [] \<Rightarrow> None
         | d # ds \<Rightarrow>
             if re_alnum d then None
             else (case re_repeat (Literal d) ds of
                     (item, rest) \<Rightarrow> map_option ((#) item) (re_parse rest)))
      else if c = CHR ''^'' then map_option ((#) Bol) (re_parse cs)
      else if c = CHR ''$'' then map_option ((#) Eol) (re_parse cs)
      else if re_special c then None
      else (case re_repeat (if c = CHR ''.'' then AnyButNewline else Literal c) cs of
              (item, rest) \<Rightarrow> map_option ((#) item) (re_parse rest)))"
  by pat_completeness auto

termination re_parse
  by (relation "measure length") (auto simp: re_repeat_def split: list.splits if_splits)

fun match_here :: "re_item list \<Rightarrow> bool \<Rightarrow> string \<Rightarrow> bool" where
  "match_here [] at_start s = True"
| "match_here (Bol # r) at_start s = (at_start \<and> match_here r at_start s)"
| "match_here (Eol # r) at_start s = ((s = [] \<or> s = [CHR 0x0A]) \<and> match_here r at_start s)"
| "match_here (Atom a # r) at_start [] = False"
| "match_here (Atom a # r) at_start (c # s) = (atom_matches a c \<and> match_here r False s)"
| "match_here (Star a # r) at_start [] = match_here r at_start []"
| "match_here (Star a # r) at_start (c # s) =
     (match_here r at_start (c # s) \<or> (atom_matches a c \<and> match_here (Star a # r) False s))"

fun search_from :: "re_item list \<Rightarrow> bool \<Rightarrow> string \<Rightarrow> bool" where
  "search_from items at_start [] = match_here items at_start []"
| "search_from items at_start (c # s) =
     (match_here items at_start (c # s) \<or> search_from items False s)"

definition re_search :: "string \<Rightarrow> string \<Rightarrow> path_error + bool" where
  "re_search pattern s =
     (case re_parse pattern of
        None \<Rightarrow> Inl ReNotModelled
      | Some items \<Rightarrow> Inr (search_from items True s))"

text \<open>
  \<^verbatim>\<open>MonitoredPath.paths_match(parent, child, regex)\<close>. The two library functions that can
  raise are parameters: \<open>search r s\<close> is \<^verbatim>\<open>re.search(r, s) is not None\<close> and
  \<open>relpath p start\<close> is \<^verbatim>\<open>os.path.relpath(p, start)\<close>; an exception of either leaves
  \<^verbatim>\<open>paths_match\<close>.
\<close>

definition paths_match ::
  "(string \<Rightarrow> string \<Rightarrow> path_error + bool) \<Rightarrow> (string \<Rightarrow> string \<Rightarrow> path_error + string)
     \<Rightarrow> string \<Rightarrow> string \<Rightarrow> string option \<Rightarrow> path_error + bool" where
  "paths_match search relpath parent child regex =
     (if \<not> startswith child parent then Inr False
      else
        (case regex of
           Some r \<Rightarrow>
             (case relpath child parent of
                Inl e \<Rightarrow> Inl e
              | Inr rel \<Rightarrow>
                  (case search r rel of
                     Inl e \<Rightarrow> Inl e
                   | Inr found \<Rightarrow> Inr found))
         | None \<Rightarrow> Inr True))"

section \<open>Properties\<close>

subsection \<open>Access-level clamping\<close>

lemma save_edit_le_delete:
  "edit_access_level (ResourceModelPermissionsMixin_save r)
     \<le> delete_access_level (ResourceModelPermissionsMixin_save r)"
  by (simp add: ResourceModelPermissionsMixin_save_def Let_def)

lemma save_ordered_when_edit_le_delete:
  assumes "edit_access_level r \<le> delete_access_level r"
  shows "read_access_level (ResourceModelPermissionsMixin_save r)
           \<le> edit_access_level (ResourceModelPermissionsMixin_save r)"
  using assms by (simp add: ResourceModelPermissionsMixin_save_def Let_def)

lemma save_keeps_team:
  "res_team (ResourceModelPermissionsMixin_save r) = res_team r
   \<and> res_pk (ResourceModelPermissionsMixin_save r) = res_pk r"
  by (simp add: ResourceModelPermissionsMixin_save_def Let_def)

text \<open>
  C1. The claim is that after save read \<le> edit \<le> delete holds for every combination of
  supplied levels. The source compares read with edit before it lowers edit to delete,
  so a resource saved with read = edit = TEAM_ADMIN and delete = TEAM_MEMBER is stored
  with read = TEAM_ADMIN above edit = TEAM_MEMBER: the order read \<le> edit is broken.
\<close>

theorem save_leaves_read_above_edit:
  "ResourceModelPermissionsMixin_save
     \<lparr>res_pk = 1, res_team = None,
      delete_access_level = level_value TEAM_MEMBER,
      edit_access_level = level_value TEAM_ADMIN,
      read_access_level = level_value TEAM_ADMIN\<rparr>
   = \<lparr>res_pk = 1, res_team = None,
      delete_access_level = level_value TEAM_MEMBER,
      edit_access_level = level_value TEAM_MEMBER,
      read_access_level = level_value TEAM_ADMIN\<rparr>
   \<and> level_value TEAM_MEMBER < level_value TEAM_ADMIN"
  by (simp add: ResourceModelPermissionsMixin_save_def Let_def)

subsection \<open>Time-series dispatch\<close>

text \<open>
  C4. \<^verbatim>\<open>get_timeseries_handler_by_type\<close> returns the float table for "float", the string
  table for "str" and the integer table for "int"; for every other string it raises
  \<^verbatim>\<open>UnsupportedTimeseriesDataTypeError\<close> and returns nothing.
\<close>

theorem get_timeseries_handler_by_type_dispatch:
  "get_timeseries_handler_by_type ''float'' = Inr TimeseriesDataFloat
   \<and> get_timeseries_handler_by_type ''str'' = Inr TimeseriesDataStr
   \<and> get_timeseries_handler_by_type ''int'' = Inr TimeseriesDataInt
   \<and> (\<forall>data_type. data_type \<noteq> ''float'' \<and> data_type \<noteq> ''str'' \<and> data_type \<noteq> ''int''
        \<longrightarrow> get_timeseries_handler_by_type data_type = Inl UnsupportedTimeseriesDataTypeError)"
  by (simp add: get_timeseries_handler_by_type_def)

theorem get_timeseries_handler_by_type_dispatch_witness:
  "get_timeseries_handler_by_type ''double'' = Inl UnsupportedTimeseriesDataTypeError
   \<and> get_timeseries_handler_by_type '''' = Inl UnsupportedTimeseriesDataTypeError
   \<and> get_timeseries_handler_by_type ''Float'' = Inl UnsupportedTimeseriesDataTypeError"
  using get_timeseries_handler_by_type_dispatch by simp

subsection \<open>Membership loops\<close>

lemma set_user_teams_loop:
  "set (user_teams_loop editable gs acc) =
     set acc \<union> {t. \<exists>g \<in> set gs. editable_team g = Some t \<or> (\<not> editable \<and> readable_team g = Some t)}"
  by (induction gs arbitrary: acc) (auto simp: Let_def split: option.splits)

lemma set_user_teams:
  "set (user_teams u editable) =
     {t. \<exists>g \<in> set (groups u). editable_team g = Some t \<or> (\<not> editable \<and> readable_team g = Some t)}"
  by (simp add: user_teams_def set_user_teams_loop)

lemma set_editable_labs_loop:
  "set (editable_labs_loop gs acc) = set acc \<union> {l. \<exists>g \<in> set gs. editable_lab g = Some l}"
  by (induction gs arbitrary: acc) (auto split: option.splits)

lemma set_team_labs_loop:
  "set (team_labs_loop ts acc) = set acc \<union> team_lab ` set ts"
  by (induction ts arbitrary: acc) auto

lemma set_user_labs_editable:
  "set (user_labs u True) = {l. \<exists>g \<in> set (groups u). editable_lab g = Some l}"
  by (simp add: user_labs_def set_editable_labs_loop)

lemma set_user_labs:
  "set (user_labs u False) = {l. member_of_lab u l}"
  by (auto simp: user_labs_def set_editable_labs_loop set_team_labs_loop set_user_teams
      member_of_lab_def Let_def) 

lemma team_in_user_teams:
  "team_in t (user_teams u False) = member_of_team u t"
proof
  assume "team_in t (user_teams u False)"
  then obtain t' g where "g \<in> set (groups u)" "team_pk t' = team_pk t"
    "editable_team g = Some t' \<or> readable_team g = Some t'"
    by (auto simp: team_in_def set_user_teams)
  then show "member_of_team u t"
    unfolding member_of_team_def by (intro bexI[of _ g]) auto
next
  assume "member_of_team u t"
  then obtain g t' where g: "g \<in> set (groups u)" and t': "team_pk t' = team_pk t"
    "editable_team g = Some t' \<or> readable_team g = Some t'"
    by (auto simp: member_of_team_def)
  from g t'(2) have "t' \<in> set (user_teams u False)"
    by (auto simp: set_user_teams)
  with t'(1) show "team_in t (user_teams u False)"
    by (auto simp: team_in_def intro: rev_image_eqI)
qed

lemma user_labs_nonempty:
  "(length (user_labs u False) > 0) = member_of_some_lab u"
proof -
  have "(length (user_labs u False) > 0) = (set (user_labs u False) \<noteq> {})" by simp
  also have "\<dots> = (\<exists>l. member_of_lab u l)" by (auto simp: set_user_labs)
  also have "\<dots> = member_of_some_lab u"
    by (auto simp: member_of_lab_def member_of_some_lab_def) 
  finally show ?thesis .
qed


subsection \<open>Groups without an owner\<close>

lemma get_owner_None_iff:
  "get_owner g = None \<longleftrightarrow>
     editable_lab g = None \<and> editable_team g = None \<and> readable_team g = None"
  by (simp add: get_owner_def split: option.splits)

text \<open>
  C9. For a group whose \<^verbatim>\<open>get_owner()\<close> is None (no editable_lab, editable_team or
  readable_team back-reference), \<^verbatim>\<open>has_object_write_permission\<close> is false for every
  requesting user, members of the group and staff or superusers included, and
  \<^verbatim>\<open>has_object_read_permission\<close> is true exactly when the requesting user is a member of
  the group.
\<close>

theorem group_without_owner_permissions:
  assumes "get_owner g = None"
  shows "\<not> GroupProxy_has_object_write_permission g u
         \<and> (GroupProxy_has_object_read_permission g u
              \<longleftrightarrow> group_pk g \<in> set (map group_pk (groups u)))"
  using assms
  by (simp add: GroupProxy_has_object_write_permission_def
      GroupProxy_has_object_read_permission_def group_in_def)

theorem group_without_owner_permissions_witness:
  "get_owner \<lparr>group_pk = 7, editable_lab = None, editable_team = None, readable_team = None\<rparr> = None
   \<and> \<not> GroupProxy_has_object_write_permission
         \<lparr>group_pk = 7, editable_lab = None, editable_team = None, readable_team = None\<rparr>
         \<lparr>groups = [\<lparr>group_pk = 7, editable_lab = None, editable_team = None, readable_team = None\<rparr>],
          is_authenticated = True, is_staff = True, is_superuser = True\<rparr>
   \<and> GroupProxy_has_object_read_permission
         \<lparr>group_pk = 7, editable_lab = None, editable_team = None, readable_team = None\<rparr>
         \<lparr>groups = [\<lparr>group_pk = 7, editable_lab = None, editable_team = None, readable_team = None\<rparr>],
          is_authenticated = True, is_staff = True, is_superuser = True\<rparr>
   \<and> \<not> GroupProxy_has_object_read_permission
         \<lparr>group_pk = 7, editable_lab = None, editable_team = None, readable_team = None\<rparr>
         \<lparr>groups = [], is_authenticated = True, is_staff = True, is_superuser = True\<rparr>"
proof -
  let ?g = "\<lparr>group_pk = 7, editable_lab = None, editable_team = None, readable_team = None\<rparr>"
  have h: "get_owner ?g = None" by (simp add: get_owner_def)
  show ?thesis
    using h group_without_owner_permissions [OF h,
        of "\<lparr>groups = [?g], is_authenticated = True, is_staff = True, is_superuser = True\<rparr>"]
      group_without_owner_permissions [OF h,
        of "\<lparr>groups = [], is_authenticated = True, is_staff = True, is_superuser = True\<rparr>"]
    by simp
qed

subsection \<open>The generic resource list filter\<close>

lemma filter_list_queryset_row:
  "r \<in> set (filter_list_queryset u rows) \<longleftrightarrow>
     r \<in> set rows \<and>
     ((\<exists>t. res_team r = Some t \<and> member_of_team u t)
      \<or> (read_access_level r = level_value LAB_MEMBER
          \<and> (\<exists>t. res_team r = Some t \<and> member_of_lab u (team_lab t)))
      \<or> (read_access_level r = level_value REGISTERED_USER \<and> member_of_some_lab u)
      \<or> read_access_level r = level_value ANONYMOUS)"
proof -
  have a: "team__in r (user_teams u False) = (\<exists>t. res_team r = Some t \<and> member_of_team u t)"
    by (simp add: team__in_def team_in_user_teams split: option.splits)
  have b: "team__lab__in r (user_labs u False)
             = (\<exists>t. res_team r = Some t \<and> member_of_lab u (team_lab t))"
    by (simp add: team__lab__in_def set_user_labs split: option.splits)
  have c: "pk__isnull r (\<not> 0 < length (user_labs u False)) = member_of_some_lab u"
    using user_labs_nonempty [of u] by (simp add: pk__isnull_def)
  show ?thesis
    unfolding filter_list_queryset_def Let_def set_filter mem_Collect_eq a b c
    by (rule refl)
qed

text \<open>
  C2. The generic resource list filter includes a row if and only if the caller is on
  the row's team, or the row's read level is LAB_MEMBER and the caller belongs to the
  lab of the row's team, or the read level is REGISTERED_USER and the caller belongs to
  at least one lab, or the read level is ANONYMOUS; in particular a row with read level
  ANONYMOUS is included for a caller with no group, hence no lab or team, at all.
\<close>

theorem resource_filter_includes_exactly:
  "(r \<in> set (filter_list_queryset u rows) \<longleftrightarrow>
     r \<in> set rows \<and>
     ((\<exists>t. res_team r = Some t \<and> member_of_team u t)
      \<or> (read_access_level r = level_value LAB_MEMBER
          \<and> (\<exists>t. res_team r = Some t \<and> member_of_lab u (team_lab t)))
      \<or> (read_access_level r = level_value REGISTERED_USER \<and> member_of_some_lab u)
      \<or> read_access_level r = level_value ANONYMOUS))
   \<and> (groups u = [] \<and> r \<in> set rows \<and> read_access_level r = level_value ANONYMOUS
        \<longrightarrow> r \<in> set (filter_list_queryset u rows))"
  using filter_list_queryset_row [of r u rows] by blast

theorem resource_filter_includes_exactly_witness:
  "\<lparr>res_pk = 1, res_team = None, delete_access_level = 3, edit_access_level = 3,
     read_access_level = 0\<rparr>
   \<in> set (filter_list_queryset
        \<lparr>groups = [], is_authenticated = False, is_staff = False, is_superuser = False\<rparr>
        [\<lparr>res_pk = 1, res_team = None, delete_access_level = 3, edit_access_level = 3,
           read_access_level = 0\<rparr>,
         \<lparr>res_pk = 2, res_team = Some \<lparr>team_pk = 5, team_lab = 1\<rparr>, delete_access_level = 3,
           edit_access_level = 3, read_access_level = 2\<rparr>])"
  using resource_filter_includes_exactly [of
      "\<lparr>res_pk = 1, res_team = None, delete_access_level = 3, edit_access_level = 3,
         read_access_level = 0\<rparr>"
      "\<lparr>groups = [], is_authenticated = False, is_staff = False, is_superuser = False\<rparr>"
      "[\<lparr>res_pk = 1, res_team = None, delete_access_level = 3, edit_access_level = 3,
           read_access_level = 0\<rparr>,
         \<lparr>res_pk = 2, res_team = Some \<lparr>team_pk = 5, team_lab = 1\<rparr>, delete_access_level = 3,
           edit_access_level = 3, read_access_level = 2\<rparr>]"]
  by simp

subsection \<open>Schema validation\<close>

lemma find_serializer_None_iff:
  "find_serializer attrs mc = None \<longleftrightarrow> \<not> has_matching_serializer attrs mc"
  by (induction attrs mc rule: find_serializer.induct)
     (auto simp: has_matching_serializer_def split: module_attr.splits option.splits)

text \<open>
  C5. For every target whose type has no matching serializer class,
  \<^verbatim>\<open>SchemaValidation.validate()\<close> sets the status to ERROR with a detail message naming
  the missing serializer and returns without raising, whatever \<^verbatim>\<open>halt_on_error\<close> is.
\<close>

theorem validate_without_serializer:
  assumes "\<not> has_matching_serializer (serializers_dir env) (content_type_model_class self)"
  shows "validate env halt_on_error self =
           Inr (self\<lparr>status := ERROR,
                     detail := Some (JStr (''Could not find serializer for ''
                                           @ str_of_class (content_type_model_class self)))\<rparr>)"
  using assms by (simp add: validate_def find_serializer_None_iff [symmetric])

text \<open>
  C7. Saving a \<^verbatim>\<open>ValidationSchema\<close> sets every existing \<^verbatim>\<open>SchemaValidation\<close> row that
  references it to status UNCHECKED with detail None, whatever the row's status was, and
  leaves the rows that reference other schemas unchanged.
\<close>

theorem validation_schema_save_resets:
  "(let rows = schema_validation_table db;
        rows' = schema_validation_table (snd (ValidationSchema_save s db))
    in length rows' = length rows
       \<and> (\<forall>i < length rows.
            (sv_schema (rows ! i) = res_pk s
               \<longrightarrow> rows' ! i = (rows ! i)\<lparr>status := UNCHECKED, detail := None\<rparr>)
            \<and> (sv_schema (rows ! i) \<noteq> res_pk s \<longrightarrow> rows' ! i = rows ! i)))"
  by (simp add: ValidationSchema_save_def update_status_detail_def Let_def save_keeps_team)


theorem validate_without_serializer_witness:
  "validate
     \<lparr>serializers_dir =
        [(''CellSerializer'', SerializerClass (Some (Some \<lparr>class_module = ''galv.models.models'', class_name = ''Cell''\<rparr>))),
         (''os'', NotAClass),
         (''TruncatedUserHyperlinkedRelatedIdField'', PlainClass),
         (''Serializer'', SerializerClass None)],
      run_checks = (\<lambda>s v. Conforms)\<rparr>
     True
     \<lparr>sv_schema = 1,
      content_type_model_class = Some \<lparr>class_module = ''galv.models.models'', class_name = ''Lab''\<rparr>,
      object_id = ''3'', status = UNCHECKED, detail = None\<rparr>
   = Inr \<lparr>sv_schema = 1,
      content_type_model_class = Some \<lparr>class_module = ''galv.models.models'', class_name = ''Lab''\<rparr>,
      object_id = ''3'', status = ERROR,
      detail = Some (JStr (''Could not find serializer for <class '' @ [CHR 0x27]
                           @ ''galv.models.models.Lab'' @ [CHR 0x27] @ ''>''))\<rparr>
   \<and> validate
     \<lparr>serializers_dir =
        [(''CellSerializer'', SerializerClass (Some (Some \<lparr>class_module = ''galv.models.models'', class_name = ''Cell''\<rparr>))),
         (''os'', NotAClass),
         (''TruncatedUserHyperlinkedRelatedIdField'', PlainClass),
         (''Serializer'', SerializerClass None)],
      run_checks = (\<lambda>s v. Conforms)\<rparr>
     False
     \<lparr>sv_schema = 1,
      content_type_model_class = Some \<lparr>class_module = ''galv.models.models'', class_name = ''Lab''\<rparr>,
      object_id = ''3'', status = UNCHECKED, detail = None\<rparr>
   = Inr \<lparr>sv_schema = 1,
      content_type_model_class = Some \<lparr>class_module = ''galv.models.models'', class_name = ''Lab''\<rparr>,
      object_id = ''3'', status = ERROR,
      detail = Some (JStr (''Could not find serializer for <class '' @ [CHR 0x27]
                           @ ''galv.models.models.Lab'' @ [CHR 0x27] @ ''>''))\<rparr>"
proof -
  let ?env = "\<lparr>serializers_dir =
        [(''CellSerializer'', SerializerClass (Some (Some \<lparr>class_module = ''galv.models.models'', class_name = ''Cell''\<rparr>))),
         (''os'', NotAClass),
         (''TruncatedUserHyperlinkedRelatedIdField'', PlainClass),
         (''Serializer'', SerializerClass None)],
      run_checks = (\<lambda>s v. Conforms)\<rparr>"
  let ?self = "\<lparr>sv_schema = 1,
      content_type_model_class = Some \<lparr>class_module = ''galv.models.models'', class_name = ''Lab''\<rparr>,
      object_id = ''3'', status = UNCHECKED, detail = None\<rparr>"
  have h: "\<not> has_matching_serializer (serializers_dir ?env) (content_type_model_class ?self)"
    by (simp add: has_matching_serializer_def)
  show ?thesis
    using validate_without_serializer [OF h, of True] validate_without_serializer [OF h, of False]
    by (simp add: str_of_class_def)
qed

theorem validation_schema_save_resets_witness:
  "schema_validation_table (snd (ValidationSchema_save
      \<lparr>res_pk = 1, res_team = None, delete_access_level = 3, edit_access_level = 3,
       read_access_level = 2, vs_name = ''cells'', vs_schema = JDict []\<rparr>
      \<lparr>validation_schema_table = [],
       schema_validation_table =
         [\<lparr>sv_schema = 1, content_type_model_class = None, object_id = ''a'',
           status = VALID, detail = None\<rparr>,
          \<lparr>sv_schema = 2, content_type_model_class = None, object_id = ''a'',
           status = INVALID, detail = Some (JStr ''bad'')\<rparr>,
          \<lparr>sv_schema = 1, content_type_model_class = None, object_id = ''b'',
           status = ERROR, detail = Some (JStr ''worse'')\<rparr>]\<rparr>))
   = [\<lparr>sv_schema = 1, content_type_model_class = None, object_id = ''a'',
           status = UNCHECKED, detail = None\<rparr>,
          \<lparr>sv_schema = 2, content_type_model_class = None, object_id = ''a'',
           status = INVALID, detail = Some (JStr ''bad'')\<rparr>,
          \<lparr>sv_schema = 1, content_type_model_class = None, object_id = ''b'',
           status = UNCHECKED, detail = None\<rparr>]"
  (is "?rows' = ?expected")
proof -
  let ?s = "\<lparr>res_pk = 1, res_team = None, delete_access_level = 3, edit_access_level = 3,
       read_access_level = 2, vs_name = ''cells'', vs_schema = JDict []\<rparr>"
  let ?db = "\<lparr>validation_schema_table = [],
       schema_validation_table =
         [\<lparr>sv_schema = 1, content_type_model_class = None, object_id = ''a'',
           status = VALID, detail = None\<rparr>,
          \<lparr>sv_schema = 2, content_type_model_class = None, object_id = ''a'',
           status = INVALID, detail = Some (JStr ''bad'')\<rparr>,
          \<lparr>sv_schema = 1, content_type_model_class = None, object_id = ''b'',
           status = ERROR, detail = Some (JStr ''worse'')\<rparr>]\<rparr>"
  note t = validation_schema_save_resets [of ?db ?s, unfolded Let_def]
  from t have len: "length ?rows' = 3" by simp
  from t have r0: "?rows' ! 0 = ?expected ! 0" by simp
  from t have "1 < (3::nat) \<longrightarrow> ?rows' ! 1 = ?expected ! 1" by (auto dest!: spec [of _ 1])
  then have r1: "?rows' ! 1 = ?expected ! 1" by simp
  from t have "2 < (3::nat) \<longrightarrow> ?rows' ! 2 = ?expected ! 2" by (auto dest!: spec [of _ 2])
  then have r2: "?rows' ! 2 = ?expected ! 2" by simp
  show ?thesis
  proof (rule nth_equalityI)
    show "length ?rows' = length ?expected" using len by simp
  next
    fix i assume "i < length ?rows'"
    then have "i = 0 \<or> i = 1 \<or> i = 2" using len by auto
    then show "?rows' ! i = ?expected ! i" using r0 r1 r2 by auto
  qed
qed

subsection \<open>Double-precision arithmetic\<close>

lemma bit_length_bounds:
  "0 < n \<Longrightarrow> 2 ^ (bit_length n - 1) \<le> n \<and> n < 2 ^ bit_length n"
proof (induction n rule: bit_length.induct)
  case (1 n)
  show ?case
  proof (cases "n div 2 = 0")
    case True
    with "1.prems" have "n = 1" by (simp add: div_eq_0_iff) 
    then show ?thesis by (simp add: bit_length.simps)
  next
    case False
    then have pos: "0 < n div 2" by simp
    from "1.IH" [OF _ pos] "1.prems"
    have ih: "2 ^ (bit_length (n div 2) - 1) \<le> n div 2" "n div 2 < 2 ^ bit_length (n div 2)"
      by simp_all
    have bl: "bit_length n = Suc (bit_length (n div 2))"
      using "1.prems" by (subst bit_length.simps) simp
    have blpos: "0 < bit_length (n div 2)"
      using pos by (subst bit_length.simps) simp
    then obtain k where k: "bit_length (n div 2) = Suc k" by (cases "bit_length (n div 2)") auto
    from ih(1) k have "2 * 2 ^ k \<le> 2 * (n div 2)" by simp
    also have "\<dots> \<le> n" by simp
    finally have lo: "2 ^ (bit_length n - 1) \<le> n" by (simp add: bl k)
    from ih(2) have "n div 2 + 1 \<le> 2 ^ bit_length (n div 2)" by simp
    then have "2 * (n div 2) + 2 \<le> 2 * 2 ^ bit_length (n div 2)" by simp
    moreover have "n \<le> 2 * (n div 2) + 1" by presburger
    ultimately have hi: "n < 2 ^ bit_length n" by (simp add: bl)
    from lo hi show ?thesis by simp
  qed
qed


lemma floor_log2_le:
  assumes "0 < a" "0 < d"
  shows "(2::rat) powi floor_log2 a d \<le> of_nat a / of_nat d"
proof -
  let ?e0 = "int (bit_length a) - int (bit_length d)"
  have dpos: "(0::rat) < of_nat d" using assms by simp
  show ?thesis
  proof (cases "(of_nat a :: rat) < of_nat d * 2 powi ?e0")
    case False
    then have "of_nat d * 2 powi ?e0 \<le> (of_nat a :: rat)" by simp
    then have "2 powi ?e0 \<le> (of_nat a :: rat) / of_nat d"
      using dpos by (simp add: pos_le_divide_eq mult.commute)
    with False show ?thesis by (simp add: floor_log2_def Let_def)
  next
    case True
    from bit_length_bounds [OF assms(1)] have a: "(2::nat) ^ (bit_length a - 1) \<le> a" by simp
    from bit_length_bounds [OF assms(2)] have d: "d < 2 ^ bit_length d" by simp
    have bla: "0 < bit_length a" using assms(1) by (subst bit_length.simps) simp
    have a': "(2::rat) powi (int (bit_length a) - 1) \<le> of_nat a"
    proof -
      have "(2::rat) powi (int (bit_length a) - 1) = 2 ^ (bit_length a - 1)"
        using bla by (simp add: power_int_def nat_diff_distrib')
      also have "\<dots> = of_nat (2 ^ (bit_length a - 1))" by simp
      also have "\<dots> \<le> of_nat a" using a by (simp only: of_nat_le_iff)
      finally show ?thesis .
    qed
    have d': "(of_nat d :: rat) \<le> 2 powi int (bit_length d)"
    proof -
      have "(of_nat d :: rat) \<le> of_nat (2 ^ bit_length d)"
        using d by (simp only: of_nat_le_iff)
      then show ?thesis by simp
    qed
    have "(2::rat) powi (?e0 - 1) * of_nat d \<le> 2 powi (?e0 - 1) * 2 powi int (bit_length d)"
      using d' by (intro mult_left_mono) simp_all
    also have "\<dots> = 2 powi (int (bit_length a) - 1)"
    proof -
      have "(2::rat) powi (?e0 - 1) * 2 powi int (bit_length d)
              = 2 powi ((?e0 - 1) + int (bit_length d))"
        by (rule power_int_add [symmetric]) simp
      also have "(?e0 - 1) + int (bit_length d) = int (bit_length a) - 1" by simp
      finally show ?thesis .
    qed
    also have "\<dots> \<le> of_nat a" by (rule a')
    finally have "(2::rat) powi (?e0 - 1) \<le> of_nat a / of_nat d"
      using dpos by (simp add: pos_le_divide_eq)
    with True show ?thesis by (simp add: floor_log2_def Let_def)
  qed
qed

lemma floor_log2_less:
  assumes "0 < a" "0 < d"
  shows "of_nat a / of_nat d < (2::rat) powi (floor_log2 a d + 1)"
proof -
  let ?e0 = "int (bit_length a) - int (bit_length d)"
  have dpos: "(0::rat) < of_nat d" using assms by simp
  show ?thesis
  proof (cases "(of_nat a :: rat) < of_nat d * 2 powi ?e0")
    case True
    then have "(of_nat a :: rat) / of_nat d < 2 powi ?e0"
      using dpos by (simp add: pos_divide_less_eq mult.commute)
    with True show ?thesis by (simp add: floor_log2_def Let_def)
  next
    case False
    from bit_length_bounds [OF assms(1)] have a: "a < 2 ^ bit_length a" by simp
    from bit_length_bounds [OF assms(2)] have d: "(2::nat) ^ (bit_length d - 1) \<le> d" by simp
    have bld: "0 < bit_length d" using assms(2) by (subst bit_length.simps) simp
    have a': "(of_nat a :: rat) < 2 powi int (bit_length a)"
    proof -
      have "(of_nat a :: rat) < of_nat (2 ^ bit_length a)"
        using a by (simp only: of_nat_less_iff)
      then show ?thesis by simp
    qed
    have d': "(2::rat) powi (int (bit_length d) - 1) \<le> of_nat d"
    proof -
      have "(2::rat) powi (int (bit_length d) - 1) = 2 ^ (bit_length d - 1)"
        using bld by (simp add: power_int_def nat_diff_distrib')
      also have "\<dots> = of_nat (2 ^ (bit_length d - 1))" by simp
      also have "\<dots> \<le> of_nat d" using d by (simp only: of_nat_le_iff)
      finally show ?thesis .
    qed
    have "(of_nat a :: rat) < 2 powi int (bit_length a)" by (rule a')
    also have "\<dots> = 2 powi (?e0 + 1) * 2 powi (int (bit_length d) - 1)"
    proof -
      have "(2::rat) powi (?e0 + 1) * 2 powi (int (bit_length d) - 1)
              = 2 powi ((?e0 + 1) + (int (bit_length d) - 1))"
        by (rule power_int_add [symmetric]) simp
      also have "(?e0 + 1) + (int (bit_length d) - 1) = int (bit_length a)" by simp
      finally show ?thesis by simp
    qed
    also have "\<dots> \<le> 2 powi (?e0 + 1) * of_nat d"
      using d' by (intro mult_left_mono) simp_all
    finally have "(of_nat a :: rat) / of_nat d < 2 powi (?e0 + 1)"
      using dpos by (simp add: pos_divide_less_eq)
    with False show ?thesis by (simp add: floor_log2_def Let_def)
  qed
qed

lemma round_half_even_le: "of_int (round_half_even x) \<le> x + 1 / 2"
proof (cases "x - of_int \<lfloor>x\<rfloor> > 1 / 2 \<or> (x - of_int \<lfloor>x\<rfloor> = 1 / 2 \<and> odd \<lfloor>x\<rfloor>)")
  case True
  then have "x - of_int \<lfloor>x\<rfloor> \<ge> 1 / 2" by auto
  then have "of_int (\<lfloor>x\<rfloor> + 1) \<le> x + 1 / 2" by simp
  moreover have "round_half_even x = \<lfloor>x\<rfloor> + 1"
    using True unfolding round_half_even_def Let_def by (rule if_P)
  ultimately show ?thesis by simp
next
  case False
  have "round_half_even x = \<lfloor>x\<rfloor>"
    using False unfolding round_half_even_def Let_def by (rule if_not_P)
  moreover have "of_int \<lfloor>x\<rfloor> \<le> x + 1 / 2"
    using of_int_floor_le [of x] by linarith
  ultimately show ?thesis by simp
qed

lemma round_half_even_nonneg: "0 \<le> x \<Longrightarrow> 0 \<le> round_half_even x"
  by (auto simp: round_half_even_def Let_def)

lemma double_quotient_nonneg: "0 \<le> double_quotient a d"
  by (auto simp: double_quotient_def Let_def intro!: mult_nonneg_nonneg round_half_even_nonneg
      divide_nonneg_nonneg)

lemma double_quotient_le:
  assumes "0 < a" "0 < d"
  shows "double_quotient a d \<le> of_nat a / of_nat d * (1 + 1 / 2 ^ 53)"
proof -
  let ?x = "of_nat a / of_nat d :: rat"
  let ?e = "floor_log2 a d"
  let ?s = "52 - ?e"
  have e: "2 powi ?e \<le> ?x" by (rule floor_log2_le [OF assms])
  have "double_quotient a d = of_int (round_half_even (?x * 2 powi ?s)) * 2 powi (- ?s)"
    using assms by (simp add: double_quotient_def Let_def)
  also have "\<dots> \<le> (?x * 2 powi ?s + 1 / 2) * 2 powi (- ?s)"
    by (intro mult_right_mono round_half_even_le) simp
  also have "\<dots> = ?x * (2 powi ?s * 2 powi (- ?s)) + 2 powi (- ?s) / 2"
    by (simp add: algebra_simps)
  also have "2 powi ?s * 2 powi (- ?s) = (1::rat)"
    by (simp add: power_int_add [symmetric])
  also have "2 powi (- ?s) / 2 = (2::rat) powi ?e * (1 / 2 ^ 53)"
  proof -
    have "(2::rat) powi (- ?s) = 2 powi (?e - 52)" by simp
    also have "\<dots> = 2 powi ?e / 2 powi 52" by (rule power_int_diff) simp
    finally show ?thesis by simp
  qed
  also have "?x * 1 + 2 powi ?e * (1 / 2 ^ 53) \<le> ?x * 1 + ?x * (1 / 2 ^ 53)"
    using e by (intro add_left_mono mult_right_mono) simp_all
  also have "\<dots> = ?x * (1 + 1 / 2 ^ 53)" by (simp add: algebra_simps)
  finally show ?thesis .
qed

lemma floor_divide_numeral_rat:
  "\<lfloor>(numeral a :: rat) / numeral b\<rfloor> = numeral a div numeral b"
  by (metis floor_divide_of_int_eq of_int_numeral)

lemmas double_eval =
  double_quotient_def floor_log2_def round_half_even_def bit_length.simps Let_def
  floor_divide_numeral_rat

text \<open>The double written \<^verbatim>\<open>0.1\<close>, and a quotient that is exact.\<close>

lemma double_quotient_examples:
  "double_quotient 1 10 = 3602879701896397 / 36028797018963968"
  "double_quotient 3 4 = 3 / 4"
  by (simp_all add: double_eval)

subsection \<open>Harvester API keys\<close>

lemma length_api_key_text: "length api_key_text = 72"
  by (simp add: api_key_text_def)

lemma random_index_range:
  assumes "0 < n"
  shows "0 \<le> random_index w n \<and> random_index w n < int n"
proof -
  let ?m = "unat w"
  have m: "?m < 2 ^ 53" using unsigned_less [of w] by simp
  have lo: "0 \<le> random_index w n"
    by (simp add: random_index_def double_quotient_nonneg)
  have "double_quotient (?m * n) (2 ^ 53) < of_nat n"
  proof (cases "?m = 0")
    case True
    then show ?thesis using assms by (simp add: double_quotient_def)
  next
    case False
    then have pos: "0 < ?m * n" using assms by simp
    have "double_quotient (?m * n) (2 ^ 53)
            \<le> of_nat (?m * n) / of_nat (2 ^ 53) * (1 + 1 / 2 ^ 53)"
      by (rule double_quotient_le [OF pos]) simp
    also have "\<dots> = of_nat n * (of_nat ?m * (2 ^ 53 + 1) / 2 ^ 106)"
      by (simp add: field_simps)
    also have "\<dots> < of_nat n * 1"
    proof (intro mult_strict_left_mono)
      have "?m + 1 \<le> 2 ^ 53" using m by simp
      then have "(of_nat (?m + 1) :: rat) \<le> of_nat (2 ^ 53)" by (simp only: of_nat_le_iff)
      then have "(of_nat ?m :: rat) \<le> 2 ^ 53 - 1" by simp
      then have "(of_nat ?m :: rat) * (2 ^ 53 + 1) \<le> (2 ^ 53 - 1) * (2 ^ 53 + 1)"
        by (intro mult_right_mono) simp_all
      also have "\<dots> < 2 ^ 106" by simp
      finally show "(of_nat ?m :: rat) * (2 ^ 53 + 1) / 2 ^ 106 < 1" by simp
      show "(0::rat) < of_nat n" using assms by simp
    qed
    finally show ?thesis by simp
  qed
  then have "random_index w n < int n"
    by (simp add: random_index_def floor_less_iff)
  with lo show ?thesis by simp
qed

text \<open>
  The rounding of the product is felt: for \<open>m = 2001599834386887\<close> the exact product
  \<open>m * 72 / 2^53\<close> is just below 16, and the float product is 16.
\<close>

lemma random_index_rounds_up:
  "random_index 2001599834386887 72 = 16
   \<and> (2001599834386887 * 72) div 2 ^ 53 = (15::nat)"
  by (simp add: random_index_def double_eval)

lemma those_map_Some:
  "(\<And>x. x \<in> set xs \<Longrightarrow> f x = Some (g x)) \<Longrightarrow> those (map f xs) = Some (map g xs)"
  by (induction xs) auto

lemma random_choices_nonempty:
  assumes "population \<noteq> []"
  shows "random_choices rnd population k =
           Some (map (\<lambda>i. population ! nat (random_index (rnd i) (length population))) [0..<k])"
  unfolding random_choices_def
proof (rule those_map_Some)
  fix i
  have "0 < length population" using assms by simp
  from random_index_range [OF this, of "rnd i"]
  show "py_getitem population (random_index (rnd i) (length population))
          = Some (population ! nat (random_index (rnd i) (length population)))"
    by (simp add: py_getitem_def Let_def)
qed

text \<open>
  C8. A Harvester saved while its api_key is absent gets the API key "galv_hrv_"
  followed by the 60 characters of \<^verbatim>\<open>text\<close> that the 60 draws of the random source
  select, in the order of the draws. Every draw selects a position of \<^verbatim>\<open>text\<close>, so the
  key starts with "galv_hrv_", is exactly 9 + 60 = 69 characters long, and its remaining
  60 characters are drawn from the alphabet a-z A-Z 0-9 and the ten signs of
  \<^verbatim>\<open>text\<close>. When an api_key is already set, save leaves it unchanged.
\<close>

theorem harvester_save_api_key:
  "(api_key h = None \<longrightarrow>
      (\<exists>key. Harvester_save rnd h = Inr (h\<lparr>api_key := Some key\<rparr>)
             \<and> key = ''galv_hrv_''
                       @ map (\<lambda>i. api_key_text ! nat (random_index (rnd i) 72)) [0..<60]
             \<and> (\<forall>i. 0 \<le> random_index (rnd i) 72 \<and> random_index (rnd i) 72 < 72)
             \<and> take 9 key = ''galv_hrv_''
             \<and> length key = 9 + 60 \<and> length key = 69
             \<and> set (drop 9 key) \<subseteq> set api_key_text))
   \<and> (api_key h \<noteq> None \<longrightarrow> Harvester_save rnd h = Inr h)"
proof (intro conjI impI)
  assume none: "api_key h = None"
  let ?chosen = "map (\<lambda>i. api_key_text ! nat (random_index (rnd i) 72)) [0..<60]"
  have ne: "api_key_text \<noteq> []" using length_api_key_text by auto
  have range: "0 \<le> random_index (rnd i) 72 \<and> random_index (rnd i) 72 < 72" for i
    using random_index_range [of 72 "rnd i"] by simp
  have chosen: "random_choices rnd api_key_text 60 = Some ?chosen"
    using random_choices_nonempty [OF ne, of rnd 60] by (simp add: length_api_key_text)
  have sub: "set ?chosen \<subseteq> set api_key_text"
  proof
    fix c assume "c \<in> set ?chosen"
    then obtain i where c: "c = api_key_text ! nat (random_index (rnd i) 72)" by auto
    have "nat (random_index (rnd i) 72) < length api_key_text"
      using range [of i] by (simp add: length_api_key_text nat_less_iff)
    then show "c \<in> set api_key_text" unfolding c by (rule nth_mem)
  qed
  have "Harvester_save rnd h = Inr (h\<lparr>api_key := Some (''galv_hrv_'' @ ?chosen)\<rparr>)"
    using none chosen by (simp add: Harvester_save_def)
  moreover have "take 9 (''galv_hrv_'' @ ?chosen) = ''galv_hrv_''" by simp
  moreover have "length (''galv_hrv_'' @ ?chosen) = 69" by simp
  moreover have "set (drop 9 (''galv_hrv_'' @ ?chosen)) \<subseteq> set api_key_text" using sub by simp
  ultimately show "\<exists>key. Harvester_save rnd h = Inr (h\<lparr>api_key := Some key\<rparr>)
             \<and> key = ''galv_hrv_''
                       @ map (\<lambda>i. api_key_text ! nat (random_index (rnd i) 72)) [0..<60]
             \<and> (\<forall>i. 0 \<le> random_index (rnd i) 72 \<and> random_index (rnd i) 72 < 72)
             \<and> take 9 key = ''galv_hrv_''
             \<and> length key = 9 + 60 \<and> length key = 69
             \<and> set (drop 9 key) \<subseteq> set api_key_text"
    using range by (intro exI [of _ "''galv_hrv_'' @ ?chosen"]) simp
next
  assume "api_key h \<noteq> None"
  then show "Harvester_save rnd h = Inr h" by (auto simp: Harvester_save_def)
qed

theorem harvester_save_api_key_witness:
  "Harvester_save (\<lambda>i. if even i then 0 else 4503599627370496)
     \<lparr>harvester_name = ''h1'', api_key = None, sleep_time = 120, active = True,
      harvester_lab = 1\<rparr>
     = Inr \<lparr>harvester_name = ''h1'',
            api_key = Some ''galv_hrv_aKaKaKaKaKaKaKaKaKaKaKaKaKaKaKaKaKaKaKaKaKaKaKaKaKaKaKaKaKaK'',
            sleep_time = 120, active = True, harvester_lab = 1\<rparr>
   \<and> Harvester_save (\<lambda>i. if even i then 0 else 4503599627370496)
        \<lparr>harvester_name = ''h2'', api_key = Some ''galv_hrv_preset'', sleep_time = 120,
         active = True, harvester_lab = 1\<rparr>
       = Inr \<lparr>harvester_name = ''h2'', api_key = Some ''galv_hrv_preset'', sleep_time = 120,
             active = True, harvester_lab = 1\<rparr>"
proof -
  have i0: "random_index 0 72 = 0"
    by (simp add: random_index_def double_eval)
  have i1: "random_index 4503599627370496 72 = 36"
    by (simp add: random_index_def double_eval)
  have key: "map (\<lambda>i. api_key_text ! nat (random_index ((\<lambda>i. if even i then 0 else 4503599627370496) i) 72)) [0..<60]
               = ''aKaKaKaKaKaKaKaKaKaKaKaKaKaKaKaKaKaKaKaKaKaKaKaKaKaKaKaKaKaK''"
    by (simp add: upt_rec i0 i1 api_key_text_def)
  show ?thesis
    using harvester_save_api_key [of
        "\<lparr>harvester_name = ''h1'', api_key = None, sleep_time = 120, active = True,
               harvester_lab = 1\<rparr>" "(\<lambda>i. if even i then 0 else 4503599627370496)"]
      harvester_save_api_key [of
        "\<lparr>harvester_name = ''h2'', api_key = Some ''galv_hrv_preset'', sleep_time = 120,
               active = True, harvester_lab = 1\<rparr>" "(\<lambda>i. if even i then 0 else 4503599627370496)"]
    unfolding key by auto
qed

subsection \<open>UserActivation\<close>

lemma assign_fresh_token_fields:
  "token (act (assign_fresh_token env w)) = Some (token_at env (tokens_drawn w))"
  "token_update_date (act (assign_fresh_token env w)) = Some (now_at env (clock_reads w))"
  "redemption_date (act (assign_fresh_token env w)) = redemption_date (act w)"
  "clock_reads (assign_fresh_token env w) = Suc (clock_reads w)"
  "tokens_drawn (assign_fresh_token env w) = Suc (tokens_drawn w)"
  "user_is_active (assign_fresh_token env w) = user_is_active w"
  "user_row_is_active (assign_fresh_token env w) = user_row_is_active w"
  by (simp_all add: assign_fresh_token_def timezone_now_def Let_def)

lemma get_is_expired_frame:
  assumes "get_is_expired env w = (expired, w2)"
  shows "tokens_drawn w2 = tokens_drawn w" "act w2 = act w" "act_row w2 = act_row w"
    "user_is_active w2 = user_is_active w" "user_row_is_active w2 = user_row_is_active w"
  using assms
  by (auto simp: get_is_expired_def timezone_now_def split: option.splits)

lemma check_of_fresh_token:
  "get_is_expired env (super_save (assign_fresh_token env w))
     = (\<not> token_survives env (clock_reads w),
        (super_save (assign_fresh_token env w))\<lparr>clock_reads := Suc (Suc (clock_reads w))\<rparr>)"
  by (simp add: get_is_expired_def super_save_def assign_fresh_token_fields timezone_now_def
      token_survives_def)

lemma generate_token_returns:
  assumes "user_is_active w \<or> token_survives env (clock_reads w)"
  shows "generate_token env w = Some (after_generate_token env w)"
proof (cases "user_is_active w")
  case True
  then show ?thesis
    unfolding generate_token_def
    by (subst UserActivation_save.simps)
       (simp add: Let_def super_save_def assign_fresh_token_fields after_generate_token_def)
next
  case False
  with assms have survives: "token_survives env (clock_reads w)" by simp
  let ?w1 = "super_save (assign_fresh_token env w)"
  have tok: "token (act ?w1) \<noteq> None"
    by (simp add: super_save_def assign_fresh_token_fields)
  have cr: "clock_reads ?w1 = Suc (clock_reads w)"
    by (simp add: super_save_def assign_fresh_token_fields)
  have exp: "get_is_expired env ?w1 = (False, ?w1\<lparr>clock_reads := Suc (clock_reads ?w1)\<rparr>)"
    unfolding cr using survives by (simp add: check_of_fresh_token)
  show ?thesis
    unfolding generate_token_def
    by (subst UserActivation_save.simps) (simp add: Let_def tok exp after_generate_token_def)
qed

lemma UserActivation_save_unfold:
  "UserActivation_save env w =
     (let w1 = super_save w in
      if \<not> user_is_active w1 then
        (if token (act w1) = None then generate_token env w1
         else (case get_is_expired env w1 of
                 (expired, w2) \<Rightarrow> if expired then generate_token env w2 else Some w2))
      else Some w1)"
  unfolding generate_token_def by (rule UserActivation_save.simps)

text \<open>
  What a \<^verbatim>\<open>save\<close> that returns has left alone, and that it never takes a token back:
  by induction on the recursion of \<^verbatim>\<open>save\<close>.
\<close>

lemma save_frame:
  assumes ret: "UserActivation_save env w = Some w'"
  shows "user_is_active w' = user_is_active w \<and> user_row_is_active w' = user_row_is_active w
         \<and> redemption_date (act w') = redemption_date (act w)
         \<and> tokens_drawn w \<le> tokens_drawn w'"
proof -
  define kept where "kept = (\<lambda>(e::activation_env) (v::activation_state) (r::activation_state).
      user_is_active r = user_is_active v \<and> user_row_is_active r = user_row_is_active v
      \<and> redemption_date (act r) = redemption_date (act v)
      \<and> tokens_drawn v \<le> tokens_drawn r)"
  have "kept env w w'"
  proof (rule UserActivation_save.raw_induct [of kept, OF _ ret])
    fix f :: "activation_env \<Rightarrow> activation_state \<Rightarrow> activation_state option"
    fix e v r
    assume ih: "\<And>e' v' r'. f e' v' = Some r' \<Longrightarrow> kept e' v' r'"
    assume body:
      "(let w1 = super_save v in
        if \<not> user_is_active w1 then
          (if token (act w1) = None then f e (assign_fresh_token e w1)
           else (case get_is_expired e w1 of
                   (expired, w2) \<Rightarrow> if expired then f e (assign_fresh_token e w2) else Some w2))
        else Some w1) = Some r"
    have step: "kept e v r" if "f e (assign_fresh_token e u) = Some r"
      and "user_is_active u = user_is_active v" "user_row_is_active u = user_row_is_active v"
      and "act u = act v" "tokens_drawn u = tokens_drawn v" for u
      using ih [OF that(1)] that(2-5) by (simp add: kept_def assign_fresh_token_fields)
    show "kept e v r"
    proof (cases "user_is_active v")
      case True
      with body show ?thesis by (auto simp: Let_def super_save_def kept_def)
    next
      case inactive: False
      show ?thesis
      proof (cases "token (act v) = None")
        case True
        with body inactive have "f e (assign_fresh_token e (super_save v)) = Some r"
          by (simp add: Let_def super_save_def)
        then show ?thesis by (rule step) (simp_all add: super_save_def)
      next
        case False
        then obtain t where tk: "token (act v) = Some t" by auto
        obtain expired w2 where e: "get_is_expired e (super_save v) = (expired, w2)"
          by (cases "get_is_expired e (super_save v)")
        note fr = get_is_expired_frame [OF e]
        show ?thesis
        proof (cases expired)
          case True
          with body inactive tk e have "f e (assign_fresh_token e w2) = Some r"
            by (simp add: Let_def super_save_def)
          then show ?thesis by (rule step) (simp_all add: fr super_save_def)
        next
          case False
          with body inactive tk e have "r = w2" by (simp add: Let_def super_save_def)
          then show ?thesis using fr by (simp add: kept_def super_save_def)
        qed
      qed
    qed
  qed
  then show ?thesis by (simp add: kept_def)
qed

text \<open>
  When no token survives and the user is inactive, every nested save generates again.
\<close>

lemma save_never_returns:
  assumes gap: "\<And>i. \<not> token_survives env i"
    and ret: "UserActivation_save env w = Some y"
    and inactive: "\<not> user_is_active w"
    and stale: "\<And>d. token_update_date (act w) = Some d
           \<Longrightarrow> total_seconds (now_at env (clock_reads w) - d)
                 > of_int (USER_ACTIVATION_TOKEN_EXPIRY_S env)"
  shows False
proof -
  define doomed where "doomed = (\<lambda>e (v::activation_state) (r::activation_state).
      e = env \<and> \<not> user_is_active v
      \<and> (\<forall>d. token_update_date (act v) = Some d
             \<longrightarrow> total_seconds (now_at env (clock_reads v) - d)
                   > of_int (USER_ACTIVATION_TOKEN_EXPIRY_S env))
      \<longrightarrow> False)"
  have "doomed env w y"
  proof (rule UserActivation_save.raw_induct [of doomed, OF _ ret])
    fix f :: "activation_env \<Rightarrow> activation_state \<Rightarrow> activation_state option"
    fix e v r
    assume ih: "\<And>e' v' r'. f e' v' = Some r' \<Longrightarrow> doomed e' v' r'"
    assume body:
      "(let w1 = super_save v in
        if \<not> user_is_active w1 then
          (if token (act w1) = None then f e (assign_fresh_token e w1)
           else (case get_is_expired e w1 of
                   (expired, w2) \<Rightarrow> if expired then f e (assign_fresh_token e w2) else Some w2))
        else Some w1) = Some r"
    show "doomed e v r"
      unfolding doomed_def
    proof (intro impI)
      assume a: "e = env \<and> \<not> user_is_active v
          \<and> (\<forall>d. token_update_date (act v) = Some d
                 \<longrightarrow> total_seconds (now_at env (clock_reads v) - d)
                       > of_int (USER_ACTIVATION_TOKEN_EXPIRY_S env))"
      have next_ok: "f env (assign_fresh_token env u) = Some r \<Longrightarrow> \<not> user_is_active u \<Longrightarrow> False" for u
        using ih [of env "assign_fresh_token env u" r] gap [of "clock_reads u"]
        by (simp add: doomed_def assign_fresh_token_fields token_survives_def)
      show False
      proof (cases "token (act v) = None \<or> token_update_date (act v) = None")
        case True
        then have "f env (assign_fresh_token env (super_save v)) = Some r"
          using body a
          by (auto simp: Let_def super_save_def get_is_expired_def split: if_splits)
        then show False using next_ok [of "super_save v"] a by (simp add: super_save_def)
      next
        case False
        then obtain t d where tk: "token (act v) = Some t" and dt: "token_update_date (act v) = Some d"
          by auto
        let ?w2 = "(super_save v)\<lparr>clock_reads := Suc (clock_reads v)\<rparr>"
        have "get_is_expired env (super_save v) = (True, ?w2)"
          using a dt by (simp add: get_is_expired_def super_save_def timezone_now_def)
        then have "f env (assign_fresh_token env ?w2) = Some r"
          using body a tk by (simp add: Let_def super_save_def)
        then show False using next_ok [of ?w2] a by (simp add: super_save_def)
      qed
    qed
  qed
  then show False using inactive stale unfolding doomed_def by blast
qed

lemma save_diverges:
  assumes "\<And>i. \<not> token_survives env i"
    and "\<not> user_is_active w"
    and "\<And>d. token_update_date (act w) = Some d
           \<Longrightarrow> total_seconds (now_at env (clock_reads w) - d)
                 > of_int (USER_ACTIVATION_TOKEN_EXPIRY_S env)"
  shows "UserActivation_save env w = None"
proof (cases "UserActivation_save env w")
  case None
  then show ?thesis .
next
  case (Some y)
  from save_never_returns [of env w y, OF assms(1) Some assms(2) assms(3)] show ?thesis by blast
qed

text \<open>
  A token that does not survive is generated again: \<^verbatim>\<open>generate_token\<close> for an inactive
  user, if it returns, has taken at least two tokens.
\<close>

lemma generate_token_twice:
  assumes inactive: "\<not> user_is_active w"
    and late: "\<not> token_survives env (clock_reads w)"
    and ret: "generate_token env w = Some w'"
  shows "tokens_drawn w + 2 \<le> tokens_drawn w'"
proof -
  let ?w1 = "super_save (assign_fresh_token env w)"
  let ?w2 = "?w1\<lparr>clock_reads := Suc (Suc (clock_reads w))\<rparr>"
  have tok: "token (act ?w1) \<noteq> None"
    by (simp add: super_save_def assign_fresh_token_fields)
  have exp: "get_is_expired env ?w1 = (True, ?w2)"
    using late by (simp add: check_of_fresh_token)
  have "generate_token env w = UserActivation_save env (assign_fresh_token env ?w2)"
    unfolding generate_token_def using inactive
    by (subst UserActivation_save.simps)
       (simp add: Let_def tok exp, simp add: super_save_def assign_fresh_token_fields)
  with ret have "UserActivation_save env (assign_fresh_token env ?w2) = Some w'" by simp
  from save_frame [OF this] show ?thesis
    by (simp add: assign_fresh_token_fields super_save_def)
qed

text \<open>The float quotients of the examples.\<close>

lemma total_seconds_examples:
  "total_seconds 2000000 = 2"
  "total_seconds 1000000000 = 1000"
  "total_seconds 1000 \<le> 900"
  "total_seconds 1200002000 > 900"
  "total_seconds 5000000 > 1"
  "total_seconds 2001000 > 1"
  "total_seconds 1000 \<le> 1"
  by (simp_all add: total_seconds_def double_eval)

text \<open>
  The exact quotient and the float differ for old tokens and long expiry times: a token
  one microsecond older than an expiry of \<open>2^38\<close> seconds is not expired, because the
  quotient rounds to \<open>2^38\<close>.
\<close>

lemma total_seconds_rounds:
  "\<not> total_seconds (2 ^ 38 * 1000000 + 1) > 2 ^ 38"
  by (simp add: total_seconds_def double_eval)

lemma slow_env_no_token_survives: "\<not> token_survives slow_env i"
proof -
  have "now_at slow_env (Suc i) - now_at slow_env i = 2000000"
    by (simp add: slow_env_def)
  then show ?thesis
    by (simp add: token_survives_def total_seconds_examples slow_env_def)
qed

lemma waiting_env_token_survives: "i \<noteq> 1 \<Longrightarrow> token_survives waiting_env i"
proof -
  assume "i \<noteq> 1"
  then have "now_at waiting_env (Suc i) - now_at waiting_env i = 1000"
    by (auto simp: waiting_env_def)
  then show ?thesis
    using total_seconds_examples(3) by (simp add: token_survives_def waiting_env_def)
qed

text \<open>
  In \<open>hiccup_env\<close> the first new token is late and the second survives: \<^verbatim>\<open>save\<close> and
  \<^verbatim>\<open>activate_user\<close> return, by unfolding the recursion twice.
\<close>

lemma hiccup_env_returns:
  "\<exists>w'. UserActivation_save hiccup_env (registered 0 False) = Some w'"
  "\<exists>res w'. activate_user hiccup_env (registered 0 False) = Some (res, w')"
  using total_seconds_examples(5-7)
  by (simp_all add: activate_user_def generate_token_def UserActivation_save.simps Let_def
      super_save_def get_is_expired_def timezone_now_def assign_fresh_token_def hiccup_env_def
      registered_def)

text \<open>
  C10, with a provision on one pair of clock readings. When the user is active, or the
  token is present and unexpired, \<^verbatim>\<open>save\<close> returns after writing the row and
  generates nothing. When the user is inactive and the token is missing or expired,
  \<^verbatim>\<open>save\<close> calls \<^verbatim>\<open>generate_token\<close>; if the new token survives (it is unexpired at the
  clock reading of the nested save), \<^verbatim>\<open>save\<close> returns after exactly that one call, so
  the recursion has depth one; if it does not survive, \<^verbatim>\<open>save\<close> returns, if at all,
  only after a second token.
\<close>

theorem save_terminates_depth_one:
  "(\<not> save_regenerates env w \<longrightarrow>
      (\<exists>w'. UserActivation_save env w = Some w'
            \<and> tokens_drawn w' = tokens_drawn w \<and> act w' = act w \<and> act_row w' = Some (act w)))
   \<and> (save_regenerates env w \<and> token_survives env (regeneration_reading env w) \<longrightarrow>
      (\<exists>w'. UserActivation_save env w = Some w'
            \<and> tokens_drawn w' = Suc (tokens_drawn w)
            \<and> token (act w') = Some (token_at env (tokens_drawn w))
            \<and> token_update_date (act w') = Some (now_at env (regeneration_reading env w))
            \<and> act_row w' = Some (act w')))
   \<and> (save_regenerates env w \<and> \<not> token_survives env (regeneration_reading env w) \<longrightarrow>
      (\<forall>w'. UserActivation_save env w = Some w' \<longrightarrow> tokens_drawn w + 2 \<le> tokens_drawn w'))"
proof (intro conjI impI allI)
  assume no: "\<not> save_regenerates env w"
  show "\<exists>w'. UserActivation_save env w = Some w'
            \<and> tokens_drawn w' = tokens_drawn w \<and> act w' = act w \<and> act_row w' = Some (act w)"
  proof (cases "user_is_active w")
    case True
    then show ?thesis
      by (subst UserActivation_save_unfold) (simp add: Let_def super_save_def)
  next
    case False
    with no obtain t where tk: "token (act w) = Some t"
      and ne: "\<not> fst (get_is_expired env (super_save w))"
      by (auto simp: save_regenerates_def)
    obtain w2 where e: "get_is_expired env (super_save w) = (False, w2)"
      using ne by (cases "get_is_expired env (super_save w)") auto
    have "UserActivation_save env w = Some w2"
      using False tk e
      by (subst UserActivation_save_unfold) (simp add: Let_def super_save_def)
    then show ?thesis using get_is_expired_frame [OF e] by (simp add: super_save_def)
  qed
next
  assume "save_regenerates env w \<and> token_survives env (regeneration_reading env w)"
  then have re: "save_regenerates env w"
    and survives: "token_survives env (regeneration_reading env w)" by simp_all
  from re have inactive: "\<not> user_is_active w" by (simp add: save_regenerates_def)
  show "\<exists>w'. UserActivation_save env w = Some w'
            \<and> tokens_drawn w' = Suc (tokens_drawn w)
            \<and> token (act w') = Some (token_at env (tokens_drawn w))
            \<and> token_update_date (act w') = Some (now_at env (regeneration_reading env w))
            \<and> act_row w' = Some (act w')"
  proof (cases "token (act w) = None")
    case True
    with survives have s: "token_survives env (clock_reads (super_save w))"
      by (simp add: regeneration_reading_def super_save_def)
    have "UserActivation_save env w = Some (after_generate_token env (super_save w))"
      using inactive True generate_token_returns [of "super_save w" env] s
      by (subst UserActivation_save_unfold) (simp add: Let_def super_save_def)
    then show ?thesis using inactive True
      by (simp add: after_generate_token_def Let_def super_save_def assign_fresh_token_fields
          regeneration_reading_def)
  next
    case False
    then obtain t where tk: "token (act w) = Some t" by auto
    from re False have "fst (get_is_expired env (super_save w))"
      by (simp add: save_regenerates_def)
    then obtain w2 where e: "get_is_expired env (super_save w) = (True, w2)"
      by (cases "get_is_expired env (super_save w)") auto
    note fr = get_is_expired_frame [OF e]
    from survives tk e have s: "token_survives env (clock_reads w2)"
      by (simp add: regeneration_reading_def)
    have "UserActivation_save env w = Some (after_generate_token env w2)"
      using inactive tk e generate_token_returns [of w2 env] s
      by (subst UserActivation_save_unfold) (simp add: Let_def super_save_def)
    then show ?thesis using inactive fr tk e
      by (simp add: after_generate_token_def Let_def super_save_def assign_fresh_token_fields
          regeneration_reading_def)
  qed
next
  fix w'
  assume "save_regenerates env w \<and> \<not> token_survives env (regeneration_reading env w)"
  then have re: "save_regenerates env w"
    and late: "\<not> token_survives env (regeneration_reading env w)" by simp_all
  assume ret: "UserActivation_save env w = Some w'"
  from re have inactive: "\<not> user_is_active w" by (simp add: save_regenerates_def)
  show "tokens_drawn w + 2 \<le> tokens_drawn w'"
  proof (cases "token (act w) = None")
    case True
    with late have l: "\<not> token_survives env (clock_reads (super_save w))"
      by (simp add: regeneration_reading_def super_save_def)
    have "UserActivation_save env w = generate_token env (super_save w)"
      using inactive True
      by (subst UserActivation_save_unfold) (simp add: Let_def super_save_def)
    with ret have "generate_token env (super_save w) = Some w'" by simp
    from generate_token_twice [OF _ l this] inactive show ?thesis
      by (simp add: super_save_def)
  next
    case False
    then obtain t where tk: "token (act w) = Some t" by auto
    from re False have "fst (get_is_expired env (super_save w))"
      by (simp add: save_regenerates_def)
    then obtain w2 where e: "get_is_expired env (super_save w) = (True, w2)"
      by (cases "get_is_expired env (super_save w)") auto
    note fr = get_is_expired_frame [OF e]
    from late tk e have l: "\<not> token_survives env (clock_reads w2)"
      by (simp add: regeneration_reading_def)
    have "UserActivation_save env w = generate_token env w2"
      using inactive tk e
      by (subst UserActivation_save_unfold) (simp add: Let_def super_save_def)
    with ret have "generate_token env w2 = Some w'" by simp
    from generate_token_twice [OF _ l this] inactive fr show ?thesis
      by (simp add: super_save_def)
  qed
qed

theorem save_terminates_depth_one_witness:
  "(\<exists>w'. UserActivation_save waiting_env new_activation = Some w'
         \<and> tokens_drawn w' = 1 \<and> token (act w') = Some ''48151623''
         \<and> token_update_date (act w') = Some 0
         \<and> act_row w' = Some (act w'))
   \<and> (\<exists>w'. UserActivation_save waiting_env (registered 2 False) = Some w'
         \<and> tokens_drawn w' = 2 \<and> token (act w') = Some ''16234815''
         \<and> token_update_date (act w') = Some 1200003000
         \<and> act_row w' = Some (act w'))
   \<and> (\<exists>w'. UserActivation_save waiting_env (registered 1 False) = Some w'
         \<and> tokens_drawn w' = 1 \<and> token (act w') = Some ''48151623'')
   \<and> (\<exists>w'. UserActivation_save hiccup_env (registered 0 False) = Some w'
         \<and> 3 \<le> tokens_drawn w')"
proof -
  have e1: "get_is_expired waiting_env (super_save (registered 1 False))
              = (False, (super_save (registered 1 False))\<lparr>clock_reads := 2\<rparr>)"
    using total_seconds_examples(3)
    by (simp add: get_is_expired_def super_save_def timezone_now_def waiting_env_def
        registered_def)
  have e2: "get_is_expired waiting_env (super_save (registered 2 False))
              = (True, (super_save (registered 2 False))\<lparr>clock_reads := 3\<rparr>)"
    using total_seconds_examples(4)
    by (simp add: get_is_expired_def super_save_def timezone_now_def waiting_env_def
        registered_def)
  have e3: "get_is_expired hiccup_env (super_save (registered 0 False))
              = (True, (super_save (registered 0 False))\<lparr>clock_reads := 1\<rparr>)"
    using total_seconds_examples(5)
    by (simp add: get_is_expired_def super_save_def timezone_now_def hiccup_env_def
        registered_def)
  have a: "save_regenerates waiting_env new_activation"
    "regeneration_reading waiting_env new_activation = 0"
    by (simp_all add: save_regenerates_def regeneration_reading_def new_activation_def)
  have b: "save_regenerates waiting_env (registered 2 False)"
    "regeneration_reading waiting_env (registered 2 False) = 3"
    unfolding save_regenerates_def regeneration_reading_def e2
    by (simp_all add: registered_def super_save_def)
  have c: "\<not> save_regenerates waiting_env (registered 1 False)"
    unfolding save_regenerates_def e1 by (simp add: registered_def)
  have d: "save_regenerates hiccup_env (registered 0 False)"
    "regeneration_reading hiccup_env (registered 0 False) = Suc 0"
    unfolding save_regenerates_def regeneration_reading_def e3
    by (simp_all add: registered_def super_save_def)
  have late: "\<not> token_survives hiccup_env (Suc 0)"
    using total_seconds_examples(6) by (simp add: token_survives_def hiccup_env_def)
  have p4: "\<exists>w'. UserActivation_save hiccup_env (registered 0 False) = Some w'
         \<and> 3 \<le> tokens_drawn w'"
  proof -
    from hiccup_env_returns(1) obtain w'
      where ret: "UserActivation_save hiccup_env (registered 0 False) = Some w'" ..
    have pre: "save_regenerates hiccup_env (registered 0 False)
        \<and> \<not> token_survives hiccup_env (regeneration_reading hiccup_env (registered 0 False))"
      using d late by simp
    from save_terminates_depth_one [of hiccup_env "registered 0 False", THEN conjunct2,
        THEN conjunct2, rule_format, OF pre ret]
    have "3 \<le> tokens_drawn w'" by (simp add: registered_def)
    with ret show ?thesis by blast
  qed
  show ?thesis
    using save_terminates_depth_one [of waiting_env new_activation]
      save_terminates_depth_one [of waiting_env "registered 2 False"]
      save_terminates_depth_one [of waiting_env "registered 1 False"]
      a b c p4 waiting_env_token_survives [of 0] waiting_env_token_survives [of 3]
    by (auto simp: new_activation_def registered_def waiting_env_def)
qed

text \<open>
  Without the provision the claim of C10 fails: with a one-second expiry and clock
  readings two seconds apart, every nested save finds the token it was given expired
  and generates again, and \<^verbatim>\<open>save\<close> of a new activation record of an inactive user
  does not return.
\<close>

theorem save_recursion_unbounded:
  "UserActivation_save slow_env new_activation = None"
  by (rule save_diverges) (simp_all add: slow_env_no_token_survives new_activation_def)

text \<open>
  C6, with a provision on one pair of clock readings. \<^verbatim>\<open>activate_user\<close> checks expiry
  first. If the token is expired, and the user is active or the new token survives (it
  is unexpired at the clock reading of the save that \<^verbatim>\<open>generate_token\<close> calls), it
  generates and stores a new token and raises the "Activation token expired" ValueError.
  If the token is not expired and the user is already active, it raises the "User
  already active" RuntimeError and changes no field. If the token is not expired and the
  user is not active, it marks the user active, stores the user, stamps the redemption
  time and stores the record. With an expired token, whatever the clock does,
  \<^verbatim>\<open>activate_user\<close> returns, if at all, with the "Activation token expired" ValueError,
  and has neither activated the user nor stamped a redemption time.
\<close>

theorem activate_user_behaviour:
  "(fst (get_is_expired env w)
      \<and> (user_is_active w \<or> token_survives env (clock_reads (snd (get_is_expired env w)))) \<longrightarrow>
      (\<exists>w'. activate_user env w =
               Some (Inl (ValueError
                 ''Activation token expired. A new token has been generated and emailed to you.''), w')
            \<and> token (act w') = Some (token_at env (tokens_drawn w))
            \<and> tokens_drawn w' = Suc (tokens_drawn w)
            \<and> token_update_date (act w')
                = Some (now_at env (clock_reads (snd (get_is_expired env w))))
            \<and> redemption_date (act w') = redemption_date (act w)
            \<and> act_row w' = Some (act w')
            \<and> user_is_active w' = user_is_active w))
   \<and> (\<not> fst (get_is_expired env w) \<and> user_is_active w \<longrightarrow>
        activate_user env w
          = Some (Inl (RuntimeError ''User already active''), snd (get_is_expired env w))
        \<and> act (snd (get_is_expired env w)) = act w
        \<and> act_row (snd (get_is_expired env w)) = act_row w)
   \<and> (\<not> fst (get_is_expired env w) \<and> \<not> user_is_active w \<longrightarrow>
        (\<exists>w'. activate_user env w = Some (Inr (), w')
            \<and> user_is_active w' \<and> user_row_is_active w'
            \<and> redemption_date (act w') = Some (now_at env (Suc (clock_reads w)))
            \<and> token (act w') = token (act w)
            \<and> token_update_date (act w') = token_update_date (act w)
            \<and> act_row w' = Some (act w')))
   \<and> (fst (get_is_expired env w) \<longrightarrow>
        (\<forall>res w'. activate_user env w = Some (res, w') \<longrightarrow>
           res = Inl (ValueError
                 ''Activation token expired. A new token has been generated and emailed to you.'')
           \<and> user_is_active w' = user_is_active w
           \<and> user_row_is_active w' = user_row_is_active w
           \<and> redemption_date (act w') = redemption_date (act w)
           \<and> tokens_drawn w < tokens_drawn w'))"
proof -
  obtain expired w1 where e: "get_is_expired env w = (expired, w1)"
    by (cases "get_is_expired env w")
  note fr = get_is_expired_frame [OF e]
  have first: "\<exists>w'. activate_user env w =
               Some (Inl (ValueError
                 ''Activation token expired. A new token has been generated and emailed to you.''), w')
            \<and> token (act w') = Some (token_at env (tokens_drawn w))
            \<and> tokens_drawn w' = Suc (tokens_drawn w)
            \<and> token_update_date (act w') = Some (now_at env (clock_reads w1))
            \<and> redemption_date (act w') = redemption_date (act w)
            \<and> act_row w' = Some (act w')
            \<and> user_is_active w' = user_is_active w"
    if x: "expired" and ok: "user_is_active w \<or> token_survives env (clock_reads w1)"
  proof -
    have ok1: "user_is_active w1 \<or> token_survives env (clock_reads w1)" using ok fr by simp
    have "activate_user env w =
            Some (Inl (ValueError
              ''Activation token expired. A new token has been generated and emailed to you.''),
              after_generate_token env w1)"
      using e x generate_token_returns [OF ok1] by (simp add: activate_user_def)
    then show ?thesis using fr
      by (simp add: after_generate_token_def Let_def super_save_def assign_fresh_token_fields)
  qed
  have second: "activate_user env w = Some (Inl (RuntimeError ''User already active''), w1)
        \<and> act w1 = act w \<and> act_row w1 = act_row w"
    if x: "\<not> expired" and ac: "user_is_active w"
    using e x ac fr by (simp add: activate_user_def)
  have third: "\<exists>w'. activate_user env w = Some (Inr (), w')
            \<and> user_is_active w' \<and> user_row_is_active w'
            \<and> redemption_date (act w') = Some (now_at env (Suc (clock_reads w)))
            \<and> token (act w') = token (act w)
            \<and> token_update_date (act w') = token_update_date (act w)
            \<and> act_row w' = Some (act w')"
    if x: "\<not> expired" and ac: "\<not> user_is_active w"
  proof -
    from e x obtain d where d: "token_update_date (act w) = Some d"
      by (auto simp: get_is_expired_def split: option.splits)
    with e have r: "clock_reads w1 = Suc (clock_reads w)"
      by (auto simp: get_is_expired_def timezone_now_def)
    let ?w5 = "w1\<lparr>user_is_active := True, user_row_is_active := True,
                   clock_reads := Suc (clock_reads w1),
                   act := (act w1)\<lparr>redemption_date := Some (now_at env (clock_reads w1))\<rparr>\<rparr>"
    have sv: "UserActivation_save env ?w5 = Some (super_save ?w5)"
      by (subst UserActivation_save_unfold) (simp add: Let_def super_save_def)
    have "activate_user env w = Some (Inr (), super_save ?w5)"
      using e x ac fr sv by (simp add: activate_user_def Let_def timezone_now_def)
    then show ?thesis using fr r by (simp add: super_save_def)
  qed
  have fourth: "res = Inl (ValueError
                 ''Activation token expired. A new token has been generated and emailed to you.'')
           \<and> user_is_active w' = user_is_active w
           \<and> user_row_is_active w' = user_row_is_active w
           \<and> redemption_date (act w') = redemption_date (act w)
           \<and> tokens_drawn w < tokens_drawn w'"
    if x: "expired" and ret: "activate_user env w = Some (res, w')" for res w'
  proof -
    from ret e x obtain w2 where g: "generate_token env w1 = Some w2"
      and r: "res = Inl (ValueError
                 ''Activation token expired. A new token has been generated and emailed to you.'')"
      and w': "w' = w2"
      by (auto simp: activate_user_def split: option.splits)
    from g have "UserActivation_save env (assign_fresh_token env w1) = Some w2"
      by (simp add: generate_token_def)
    from save_frame [OF this] show ?thesis using r w' fr
      by (simp add: assign_fresh_token_fields)
  qed
  show ?thesis
    using first second third fourth unfolding e fst_conv snd_conv by blast
qed

theorem activate_user_behaviour_witness:
  "(\<exists>w'. activate_user waiting_env (registered 2 False) =
            Some (Inl (ValueError
              ''Activation token expired. A new token has been generated and emailed to you.''), w')
         \<and> token (act w') = Some ''16234815''
         \<and> token_update_date (act w') = Some 1200003000
         \<and> act_row w' = Some (act w') \<and> \<not> user_is_active w')
   \<and> (\<exists>w'. activate_user waiting_env (registered 2 True) =
            Some (Inl (ValueError
              ''Activation token expired. A new token has been generated and emailed to you.''), w')
         \<and> token (act w') = Some ''16234815'')
   \<and> activate_user waiting_env (registered 1 True)
        = Some (Inl (RuntimeError ''User already active''), (registered 1 True)\<lparr>clock_reads := 2\<rparr>)
   \<and> (\<exists>w'. activate_user waiting_env (registered 1 False) = Some (Inr (), w')
         \<and> user_is_active w' \<and> user_row_is_active w'
         \<and> redemption_date (act w') = Some 1200002000
         \<and> act_row w' = Some (act w'))
   \<and> (\<exists>w'. activate_user hiccup_env (registered 0 False) =
            Some (Inl (ValueError
              ''Activation token expired. A new token has been generated and emailed to you.''), w')
         \<and> \<not> user_is_active w' \<and> redemption_date (act w') = None
         \<and> 1 < tokens_drawn w')"
proof -
  let ?expired = "Inl (ValueError
      ''Activation token expired. A new token has been generated and emailed to you.'')
      :: activation_error + unit"
  have a: "get_is_expired waiting_env (registered 2 ia) = (True, (registered 2 ia)\<lparr>clock_reads := 3\<rparr>)" for ia
    using total_seconds_examples(4)
    by (simp add: get_is_expired_def timezone_now_def waiting_env_def registered_def)
  have b: "get_is_expired waiting_env (registered 1 ia) = (False, (registered 1 ia)\<lparr>clock_reads := 2\<rparr>)" for ia
    using total_seconds_examples(3)
    by (simp add: get_is_expired_def timezone_now_def waiting_env_def registered_def)
  have c: "user_is_active (registered k True)" "\<not> user_is_active (registered k False)"
    "tokens_drawn (registered k ia) = 1" "clock_reads (registered k ia) = k" for k ia
    by (simp_all add: registered_def)
  have d: "now_at waiting_env 2 = 1200002000" "now_at waiting_env 3 = 1200003000"
    "token_at waiting_env (Suc 0) = ''16234815''"
    by (simp_all add: waiting_env_def)
  have p1: "\<exists>w'. activate_user waiting_env (registered 2 False) = Some (?expired, w')
         \<and> token (act w') = Some ''16234815''
         \<and> token_update_date (act w') = Some 1200003000
         \<and> act_row w' = Some (act w') \<and> \<not> user_is_active w'"
  proof -
    have pre: "fst (get_is_expired waiting_env (registered 2 False))
        \<and> (user_is_active (registered 2 False)
           \<or> token_survives waiting_env
                (clock_reads (snd (get_is_expired waiting_env (registered 2 False)))))"
      unfolding a using waiting_env_token_survives [of 3] by simp
    from activate_user_behaviour [of waiting_env "registered 2 False", THEN conjunct1,
        rule_format, OF pre]
    obtain w' where "activate_user waiting_env (registered 2 False) = Some (?expired, w')"
      "token (act w') = Some (token_at waiting_env (tokens_drawn (registered 2 False)))"
      "token_update_date (act w')
         = Some (now_at waiting_env
             (clock_reads (snd (get_is_expired waiting_env (registered 2 False)))))"
      "act_row w' = Some (act w')" "user_is_active w' = user_is_active (registered 2 False)"
      by blast
    then show ?thesis unfolding a by (intro exI [of _ w']) (simp add: c d)
  qed
  have p2: "\<exists>w'. activate_user waiting_env (registered 2 True) = Some (?expired, w')
         \<and> token (act w') = Some ''16234815''"
  proof -
    have pre: "fst (get_is_expired waiting_env (registered 2 True))
        \<and> (user_is_active (registered 2 True)
           \<or> token_survives waiting_env
                (clock_reads (snd (get_is_expired waiting_env (registered 2 True)))))"
      unfolding a by (simp add: c)
    from activate_user_behaviour [of waiting_env "registered 2 True", THEN conjunct1,
        rule_format, OF pre]
    obtain w' where "activate_user waiting_env (registered 2 True) = Some (?expired, w')"
      "token (act w') = Some (token_at waiting_env (tokens_drawn (registered 2 True)))"
      by blast
    then show ?thesis by (intro exI [of _ w']) (simp add: c d)
  qed
  have p3: "activate_user waiting_env (registered 1 True)
        = Some (Inl (RuntimeError ''User already active''), (registered 1 True)\<lparr>clock_reads := 2\<rparr>)"
  proof -
    have pre: "\<not> fst (get_is_expired waiting_env (registered 1 True))
        \<and> user_is_active (registered 1 True)"
      unfolding b by (simp add: c)
    from activate_user_behaviour [of waiting_env "registered 1 True", THEN conjunct2,
        THEN conjunct1, rule_format, OF pre]
    show ?thesis unfolding b by simp
  qed
  have p4: "\<exists>w'. activate_user waiting_env (registered 1 False) = Some (Inr (), w')
         \<and> user_is_active w' \<and> user_row_is_active w'
         \<and> redemption_date (act w') = Some 1200002000
         \<and> act_row w' = Some (act w')"
  proof -
    have pre: "\<not> fst (get_is_expired waiting_env (registered 1 False))
        \<and> \<not> user_is_active (registered 1 False)"
      unfolding b by (simp add: c)
    from activate_user_behaviour [of waiting_env "registered 1 False", THEN conjunct2,
        THEN conjunct2, THEN conjunct1, rule_format, OF pre]
    obtain w' where "activate_user waiting_env (registered 1 False) = Some (Inr (), w')"
      "user_is_active w'" "user_row_is_active w'"
      "redemption_date (act w')
         = Some (now_at waiting_env (Suc (clock_reads (registered 1 False))))"
      "act_row w' = Some (act w')"
      by blast
    then show ?thesis
      unfolding c by (intro exI [of _ w']) (simp add: d numeral_2_eq_2 [symmetric])
  qed
  have p5: "\<exists>w'. activate_user hiccup_env (registered 0 False) = Some (?expired, w')
         \<and> \<not> user_is_active w' \<and> redemption_date (act w') = None
         \<and> 1 < tokens_drawn w'"
  proof -
    from hiccup_env_returns(2) obtain res w'
      where ret: "activate_user hiccup_env (registered 0 False) = Some (res, w')" by blast
    have "get_is_expired hiccup_env (registered 0 False)
            = (True, (registered 0 False)\<lparr>clock_reads := 1\<rparr>)"
      using total_seconds_examples(5)
      by (simp add: get_is_expired_def timezone_now_def hiccup_env_def registered_def)
    then have pre: "fst (get_is_expired hiccup_env (registered 0 False))" by simp
    from activate_user_behaviour [of hiccup_env "registered 0 False", THEN conjunct2,
        THEN conjunct2, THEN conjunct2, rule_format, OF pre ret]
    have "res = ?expired" "\<not> user_is_active w'" "redemption_date (act w') = None"
      "1 < tokens_drawn w'"
      by (simp_all add: registered_def)
    with ret show ?thesis by blast
  qed
  from p1 p2 p3 p4 p5 show ?thesis by (intro conjI)
qed

text \<open>
  The provision on the clock in C6 is needed: in \<open>slow_env\<close>, \<^verbatim>\<open>activate_user\<close> on an
  expired token of an inactive user does not return, so it raises no token-expired
  error.
\<close>

theorem activate_user_never_reports_expiry:
  "fst (get_is_expired slow_env stale_activation)
   \<and> activate_user slow_env stale_activation = None"
proof -
  have e: "get_is_expired slow_env stale_activation
             = (True, stale_activation\<lparr>clock_reads := 1\<rparr>)"
    using total_seconds_examples(2)
    by (simp add: get_is_expired_def timezone_now_def slow_env_def stale_activation_def)
  have "generate_token slow_env (stale_activation\<lparr>clock_reads := 1\<rparr>) = None"
    unfolding generate_token_def
  proof (rule save_diverges)
    show "\<not> token_survives slow_env i" for i by (rule slow_env_no_token_survives)
    show "\<not> user_is_active (assign_fresh_token slow_env (stale_activation\<lparr>clock_reads := 1\<rparr>))"
      by (simp add: assign_fresh_token_fields stale_activation_def)
    show "total_seconds (now_at slow_env (clock_reads
              (assign_fresh_token slow_env (stale_activation\<lparr>clock_reads := 1\<rparr>))) - d)
            > of_int (USER_ACTIVATION_TOKEN_EXPIRY_S slow_env)"
      if "token_update_date (act (assign_fresh_token slow_env
              (stale_activation\<lparr>clock_reads := 1\<rparr>))) = Some d" for d
      using that total_seconds_examples(1)
      by (simp add: assign_fresh_token_fields slow_env_def)
  qed
  then show ?thesis using e by (simp add: activate_user_def)
qed

subsection \<open>MonitoredPath.paths_match\<close>

lemma startswith_iff: "startswith s p \<longleftrightarrow> (\<exists>rest. s = p @ rest)"
proof
  assume "startswith s p"
  then have "s = p @ drop (length p) s"
    unfolding startswith_def by (metis append_take_drop_id)
  then show "\<exists>rest. s = p @ rest" ..
next
  assume "\<exists>rest. s = p @ rest"
  then show "startswith s p" by (auto simp: startswith_def)
qed

lemma paths_match_True_iff:
  "paths_match search relpath parent child regex = Inr True \<longleftrightarrow>
     startswith child parent
     \<and> (regex = None
        \<or> (\<exists>r rel. regex = Some r \<and> relpath child parent = Inr rel \<and> search r rel = Inr True))"
  by (auto simp: paths_match_def split: option.splits sum.splits)

lemma relpath_example:
  "posix_relpath cwd ''/data/lab1/run3/file.csv'' ''/data/lab1'' = Inr ''run3/file.csv''"
  by (simp add: posix_relpath_def abspath_def normpath_def startswith_def endswith_def Let_def)

lemma re_parse_example:
  "re_parse (''.*'' @ [CHR 0x5C] @ ''.csv$'')
     = Some [Star AnyButNewline, Atom (Literal CHR ''.''), Atom (Literal CHR ''c''),
             Atom (Literal CHR ''s''), Atom (Literal CHR ''v''), Eol]"
  by (simp add: re_special_def re_alnum_def re_repeat_def)

lemma re_search_example:
  "re_search (''.*'' @ [CHR 0x5C] @ ''.csv$'') ''run3/file.csv'' = Inr True"
  unfolding re_search_def re_parse_example by simp

text \<open>
  C3. \<^verbatim>\<open>paths_match(parent, child, regex)\<close> returns true if and only if child is prefixed
  by parent and the regex is absent or matches child's path relative to parent, whatever
  the regex engine and \<^verbatim>\<open>relpath\<close> do; in particular
  \<^verbatim>\<open>paths_match("/data/lab1", "/data/lab1/run3/file.csv", ".*\.csv$")\<close> is true (from any
  working directory) and \<^verbatim>\<open>paths_match("/data/lab1", "/data/lab2/file.csv", ".*")\<close> is
  false.
\<close>

theorem paths_match_spec:
  "(paths_match search relpath parent child regex = Inr True \<longleftrightarrow>
      (\<exists>rest. child = parent @ rest)
      \<and> (regex = None
         \<or> (\<exists>r rel. regex = Some r \<and> relpath child parent = Inr rel \<and> search r rel = Inr True)))
   \<and> paths_match re_search (posix_relpath cwd) ''/data/lab1'' ''/data/lab1/run3/file.csv''
        (Some (''.*'' @ [CHR 0x5C] @ ''.csv$'')) = Inr True
   \<and> paths_match search relpath ''/data/lab1'' ''/data/lab2/file.csv'' (Some ''.*'') = Inr False"
proof (intro conjI)
  show "paths_match search relpath parent child regex = Inr True \<longleftrightarrow>
      (\<exists>rest. child = parent @ rest)
      \<and> (regex = None
         \<or> (\<exists>r rel. regex = Some r \<and> relpath child parent = Inr rel \<and> search r rel = Inr True))"
    unfolding paths_match_True_iff startswith_iff by (rule refl)
  show "paths_match re_search (posix_relpath cwd) ''/data/lab1'' ''/data/lab1/run3/file.csv''
        (Some (''.*'' @ [CHR 0x5C] @ ''.csv$'')) = Inr True"
    unfolding paths_match_True_iff
    using relpath_example [of cwd] re_search_example by (simp add: startswith_def)
  show "paths_match search relpath ''/data/lab1'' ''/data/lab2/file.csv'' (Some ''.*'') = Inr False"
    by (simp add: paths_match_def startswith_def)
qed

theorem paths_match_spec_witness:
  "paths_match re_search (posix_relpath ''/srv/galv'') ''/data/lab1'' ''/data/lab1/b7.tsv''
     (Some ''b.*'') = Inr True
   \<and> paths_match re_search (posix_relpath ''/srv/galv'') ''/data/lab1'' ''/data/lab1/b7.tsv''
     None = Inr True"
proof -
  have rel: "posix_relpath ''/srv/galv'' ''/data/lab1/b7.tsv'' ''/data/lab1'' = Inr ''b7.tsv''"
    by (simp add: posix_relpath_def abspath_def normpath_def startswith_def endswith_def Let_def)
  have found: "re_search ''b.*'' ''b7.tsv'' = Inr True"
    by (simp add: re_search_def re_special_def re_alnum_def re_repeat_def)
  have pre: "\<exists>rest. ''/data/lab1/b7.tsv'' = ''/data/lab1'' @ rest"
    by (rule exI [of _ "''/b7.tsv''"]) simp
  show ?thesis
    using paths_match_spec [of re_search "posix_relpath ''/srv/galv''" "''/data/lab1''"
        "''/data/lab1/b7.tsv''" "Some ''b.*''"]
      paths_match_spec [of re_search "posix_relpath ''/srv/galv''" "''/data/lab1''"
        "''/data/lab1/b7.tsv''" None]
      rel found pre
    by simp
qed

end
